theory Spec2Isabelle
  imports Main
begin

text \<open>
  A shallow embedding of \<^verbatim>\<open>src/lib/data.ts\<close>: the construction of the form data
  (\<^verbatim>\<open>createFormData\<close>, \<^verbatim>\<open>getInputValue\<close>) and the event handling (the subscription
  to the controls and the focus, blur, change and submit handlers). Objects that the code
  mutates in place are passed and returned; exceptions are values; the listeners that the
  host keeps for the controls are an explicit list.
\<close>

section \<open>Data model\<close>

text \<open>
  \<^verbatim>\<open>InputValue\<close> is the type of \<^verbatim>\<open>getInputValue\<close>'s result: the string
  \<^verbatim>\<open>input.value\<close> or the boolean \<^verbatim>\<open>input.checked\<close>.
\<close>

datatype InputValue = StringValue string | BooleanValue bool

text \<open>
  A form control (\<^verbatim>\<open>FormFields\<close>): a native input carries its \<^verbatim>\<open>type\<close> and its
  \<^verbatim>\<open>checked\<close> flag; select and textarea elements have no \<^verbatim>\<open>checked\<close> property.
\<close>

datatype Element =
    HTMLInputElement string bool
  | HTMLSelectElement
  | HTMLTextAreaElement

record FormFields =
  name :: string
  value' :: string
  element :: Element

text \<open>\<^verbatim>\<open>(input as HTMLInputElement).checked\<close>: \<^verbatim>\<open>undefined\<close> outside native inputs.\<close>

definition checked :: "FormFields \<Rightarrow> bool option" where
  "checked input =
     (case element input of HTMLInputElement t c \<Rightarrow> Some c | _ \<Rightarrow> None)"

text \<open>Truthiness of \<^verbatim>\<open>checked\<close>, as a conditional or \<^verbatim>\<open>!!\<close> sees it.\<close>

definition truthy_checked :: "FormFields \<Rightarrow> bool" where
  "truthy_checked input = (case checked input of Some c \<Rightarrow> c | None \<Rightarrow> False)"

text \<open>
  Modelled from the spec: \<^verbatim>\<open>isRadio\<close> and \<^verbatim>\<open>isCheckbox\<close> of
  \<^verbatim>\<open>utils/type-helpers\<close> are not part of the sources; the spec describes them as the
  runtime inspection of the control kind (checkbox, radio, other).
\<close>

definition isRadio :: "FormFields \<Rightarrow> bool" where
  "isRadio input =
     (case element input of HTMLInputElement t c \<Rightarrow> t = ''radio'' | _ \<Rightarrow> False)"

definition isCheckbox :: "FormFields \<Rightarrow> bool" where
  "isCheckbox input =
     (case element input of HTMLInputElement t c \<Rightarrow> t = ''checkbox'' | _ \<Rightarrow> False)"

record FormulaValue =
  fvalue :: InputValue
  isValid :: bool
  isTouched :: bool
  isFocused :: bool
  isDirty :: bool
  errors :: "string list"
  inputType :: "string option"

subsection \<open>The form object and its key order\<close>

text \<open>
  \<^verbatim>\<open>FormulaForm\<close> is a plain object keyed by control name. It is kept as the list of its
  own properties in the order in which the language enumerates them: the keys that are
  array indices first, in ascending numeric order, then the other keys in the order of
  their creation. Keys are unique.
\<close>

type_synonym FormulaForm = "(string \<times> FormulaValue) list"

definition isDigit :: "char \<Rightarrow> bool" where
  "isDigit c = (48 \<le> (of_char c :: nat) \<and> (of_char c :: nat) \<le> 57)"

definition parseNat :: "string \<Rightarrow> nat" where
  "parseNat s = foldl (\<lambda>n c. 10 * n + ((of_char c :: nat) - 48)) 0 s"

text \<open>
  An array index is the canonical decimal spelling (no sign, no leading zero) of an
  integer from 0 to \<open>2^32 - 2\<close>.
\<close>

definition isArrayIndex :: "string \<Rightarrow> bool" where
  "isArrayIndex s =
     (s \<noteq> [] \<and> list_all isDigit s \<and> (hd s = CHR ''0'' \<longrightarrow> length s = 1)
      \<and> parseNat s < 4294967295)"

text \<open>
  \<^verbatim>\<open>obj[key]\<close> on an own property; \<^verbatim>\<open>undefined\<close> is \<open>None\<close>. The names that
  every object inherits (\<^verbatim>\<open>constructor\<close>, \<^verbatim>\<open>toString\<close> and the like) are not
  modelled: the results below are about names that have an entry.
\<close>

definition getProp :: "FormulaForm \<Rightarrow> string \<Rightarrow> FormulaValue option" where
  "getProp obj key = map_of obj key"

fun insertIndex :: "FormulaForm \<Rightarrow> string \<Rightarrow> FormulaValue \<Rightarrow> FormulaForm" where
  "insertIndex [] key v = [(key, v)]"
| "insertIndex ((k, x) # rest) key v =
     (if isArrayIndex k \<and> parseNat k < parseNat key
      then (k, x) # insertIndex rest key v
      else (key, v) # (k, x) # rest)"

text \<open>
  \<^verbatim>\<open>{ ...obj, [key]: v }\<close>: an existing property keeps its place and takes the new
  value; a new array-index key goes among the array indices; any other new key goes last.
\<close>

definition setProp :: "FormulaForm \<Rightarrow> string \<Rightarrow> FormulaValue \<Rightarrow> FormulaForm" where
  "setProp obj key v =
     (if key \<in> fst ` set obj
      then map (\<lambda>(k, x). if k = key then (k, v) else (k, x)) obj
      else if isArrayIndex key then insertIndex obj key v
      else obj @ [(key, v)])"

text \<open>
  The shape of an object's key list: array indices first, in ascending order, then the
  other keys.
\<close>

fun indexKeysFirst :: "string list \<Rightarrow> bool" where
  "indexKeysFirst [] = True"
| "indexKeysFirst (k # ks) =
     (if isArrayIndex k
      then (\<forall>k' \<in> set ks. isArrayIndex k' \<longrightarrow> parseNat k \<le> parseNat k') \<and> indexKeysFirst ks
      else (\<forall>k' \<in> set ks. \<not> isArrayIndex k'))"

section \<open>Building the form data\<close>

text \<open>\<^verbatim>\<open>previousInputValue || ""\<close>: every falsy value gives the empty string.\<close>

definition orEmpty :: "InputValue option \<Rightarrow> InputValue" where
  "orEmpty previousInputValue =
     (case previousInputValue of
        None \<Rightarrow> StringValue ''''
      | Some (StringValue s) \<Rightarrow> if s = '''' then StringValue '''' else StringValue s
      | Some (BooleanValue b) \<Rightarrow> if b then BooleanValue True else StringValue '''')"

definition getInputValue :: "FormFields \<Rightarrow> InputValue option \<Rightarrow> InputValue" where
  "getInputValue input previousInputValue =
     (if isRadio input
      then (if truthy_checked input then StringValue (value' input)
            else orEmpty previousInputValue)
      else if isCheckbox input then BooleanValue (truthy_checked input)
      else StringValue (value' input))"

text \<open>
  \<^verbatim>\<open>previousValue ?? ""\<close>, the fallback as the specification words it: the previous
  value whenever there is one.
\<close>

definition nullishOrEmpty :: "InputValue option \<Rightarrow> InputValue" where
  "nullishOrEmpty previousValue =
     (case previousValue of None \<Rightarrow> StringValue [] | Some v \<Rightarrow> v)"

text \<open>\<^verbatim>\<open>cur instanceof HTMLInputElement ? cur.type : null\<close>\<close>

definition nativeInputType :: "FormFields \<Rightarrow> string option" where
  "nativeInputType cur =
     (case element cur of HTMLInputElement t c \<Rightarrow> Some t | _ \<Rightarrow> None)"

definition initialField :: "FormulaForm \<Rightarrow> FormFields \<Rightarrow> FormulaValue" where
  "initialField acc cur =
     \<lparr> fvalue = getInputValue cur (map_option fvalue (getProp acc (name cur))),
       isValid = True,
       isTouched = False,
       isFocused = False,
       isDirty = False,
       errors = [],
       inputType = nativeInputType cur \<rparr>"

definition createFormData :: "FormFields list \<Rightarrow> FormulaForm" where
  "createFormData inputs =
     foldl (\<lambda>acc cur. setProp acc (name cur) (initialField acc cur)) [] inputs"

section \<open>Options, events and the observable world\<close>

text \<open>
  Modelled from the spec: the declarations of \<^verbatim>\<open>./types\<close> are not part of the sources.
  \<^verbatim>\<open>FormulaFieldOptions\<close> has the three options the handlers read (\<^verbatim>\<open>emitOn\<close> is an
  array of event names); \<^verbatim>\<open>FormulaValidations\<close> maps a control name to its options.
\<close>

record FormulaFieldOptions =
  validateOn :: "string option"
  emitOn :: "string list option"
  validateDirtyOnly :: "bool option"

type_synonym FormulaValidations = "string \<Rightarrow> FormulaFieldOptions option"

text \<open>\<^verbatim>\<open>options && options[input.name]\<close>\<close>

definition optionsFor ::
  "FormulaValidations option \<Rightarrow> FormFields \<Rightarrow> FormulaFieldOptions option" where
  "optionsFor options input =
     (case options of None \<Rightarrow> None | Some opts \<Rightarrow> opts (name input))"

text \<open>
  Modelled from the spec: the members of the enum \<^verbatim>\<open>Events\<close> of \<^verbatim>\<open>./types\<close>. The
  handler table is written with the keys \<^verbatim>\<open>[Events.change]\<close>, \<^verbatim>\<open>[Events.focus]\<close>,
  \<^verbatim>\<open>[Events.blur]\<close> and read back as \<^verbatim>\<open>.change\<close>, \<^verbatim>\<open>.focus\<close>, \<^verbatim>\<open>.blur\<close>.
\<close>

definition Events_change :: string where "Events_change = ''change''"
definition Events_focus :: string where "Events_focus = ''focus''"
definition Events_blur :: string where "Events_blur = ''blur''"
definition Events_submit :: string where "Events_submit = ''submit''"

record Event =
  target :: FormFields
  defaultPrevented :: bool

definition preventDefault :: "Event \<Rightarrow> Event" where
  "preventDefault e = e\<lparr>defaultPrevented := True\<rparr>"

datatype exn = TypeError | ValidationFailure string

text \<open>
  What \<^verbatim>\<open>emit\<close> is given: the entry \<^verbatim>\<open>formData[input.name]\<close> (\<open>None\<close> when that
  is \<^verbatim>\<open>undefined\<close>), or the object \<^verbatim>\<open>{ formData, isValid }\<close>.
\<close>

datatype Payload = FieldPayload "FormulaValue option" | SubmitPayload FormulaForm bool

text \<open>
  What a handler can change or cause: the shared form data, the events handed to
  \<^verbatim>\<open>emit\<close> (each with the payload as it is at the time of the call) and the controls
  for which \<^verbatim>\<open>applyFieldValidation\<close> has been called, both in call order.
\<close>

record World =
  formData :: FormulaForm
  emitted :: "(string \<times> Payload) list"
  validated :: "FormFields list"

text \<open>
  Modelled from the spec: \<^verbatim>\<open>emit\<close> of \<^verbatim>\<open>./subscription\<close> is not part of the sources;
  it is the fire-and-forget publish primitive.
\<close>

definition emit :: "string \<Rightarrow> Payload \<Rightarrow> World \<Rightarrow> World" where
  "emit eventName payload w = w\<lparr>emitted := emitted w @ [(eventName, payload)]\<rparr>"

text \<open>
  The rule engine behind \<^verbatim>\<open>applyFieldValidation\<close> is opaque. It either throws
  (\<open>Inl\<close>) or yields the validity and the error list to store (\<open>Inr\<close>). Its verdict
  may depend on the control, the options and everything that has happened so far.
\<close>

type_synonym Rules =
  "FormFields \<Rightarrow> World \<Rightarrow> FormulaFieldOptions option \<Rightarrow> exn + (bool \<times> string list)"

text \<open>
  In-place assignment to fields of the entry \<^verbatim>\<open>formData[key]\<close>. The entry keeps its
  place; the handlers call it only after they have found the entry.
\<close>

definition updField ::
  "string \<Rightarrow> (FormulaValue \<Rightarrow> FormulaValue) \<Rightarrow> World \<Rightarrow> World" where
  "updField key f w =
     w\<lparr>formData := map (\<lambda>(k, x). if k = key then (k, f x) else (k, x)) (formData w)\<rparr>"

text \<open>
  Modelled from the spec: \<^verbatim>\<open>validationFns.applyFieldValidation\<close> of \<^verbatim>\<open>./validation\<close>
  is not part of the sources. It is synchronous, replaces \<^verbatim>\<open>isValid\<close> and
  \<^verbatim>\<open>errors\<close> of the control's entry and touches nothing else; nothing catches what it
  throws. The result is the exception, if any, and the world left behind.
\<close>

definition applyFieldValidation ::
  "Rules \<Rightarrow> FormFields \<Rightarrow> FormulaFieldOptions option \<Rightarrow> World \<Rightarrow> exn option \<times> World" where
  "applyFieldValidation rules input inputOptions w =
     (let w1 = w\<lparr>validated := validated w @ [input]\<rparr> in
      case rules input w inputOptions of
        Inl e \<Rightarrow> (Some e, w1)
      | Inr (v, errs) \<Rightarrow>
          (case getProp (formData w1) (name input) of
             None \<Rightarrow> (Some TypeError, w1)
           | Some entry \<Rightarrow>
               (None, updField (name input) (\<lambda>x. x\<lparr>isValid := v, errors := errs\<rparr>) w1)))"

section \<open>The handlers\<close>

text \<open>\<^verbatim>\<open>!inputOptions?.emitOn || inputOptions.emitOn.includes(eventName)\<close>\<close>

definition emitAllowed :: "FormulaFieldOptions option \<Rightarrow> string \<Rightarrow> bool" where
  "emitAllowed inputOptions eventName =
     (case inputOptions of
        None \<Rightarrow> True
      | Some opts \<Rightarrow>
          (case emitOn opts of None \<Rightarrow> True | Some allowed \<Rightarrow> eventName \<in> set allowed))"

text \<open>\<^verbatim>\<open>emit(eventName, formData[input.name])\<close>\<close>

definition emitField :: "string \<Rightarrow> FormFields \<Rightarrow> World \<Rightarrow> World" where
  "emitField eventName input w =
     emit eventName (FieldPayload (getProp (formData w) (name input))) w"

text \<open>
  Each handler below is the function that \<^verbatim>\<open>onFocus\<close>, \<^verbatim>\<open>onBlur\<close>, \<^verbatim>\<open>onChange\<close>
  or \<^verbatim>\<open>onSubmit\<close> returns, applied to an event. The captured \<^verbatim>\<open>formData\<close> is the
  one of the world. The result is the exception that ended the call, if any, and the world
  the call leaves behind. Assigning to a field of \<^verbatim>\<open>formData[input.name]\<close> throws a
  \<^verbatim>\<open>TypeError\<close> when there is no such entry.
\<close>

definition onFocus ::
  "FormFields \<Rightarrow> FormulaFieldOptions option \<Rightarrow> Event \<Rightarrow> World \<Rightarrow> exn option \<times> World" where
  "onFocus input inputOptions e w =
     (case getProp (formData w) (name input) of
        None \<Rightarrow> (Some TypeError, w)
      | Some entry \<Rightarrow>
          (let w1 = updField (name input) (\<lambda>x. x\<lparr>isFocused := True\<rparr>) w in
           if emitAllowed inputOptions Events_focus
           then (None, emitField Events_focus input w1)
           else (None, w1)))"

text \<open>\<^verbatim>\<open>inputOptions?.validateDirtyOnly === false\<close>\<close>

definition validateDirtyOnlyIsFalse :: "FormulaFieldOptions option \<Rightarrow> bool" where
  "validateDirtyOnlyIsFalse inputOptions =
     (case inputOptions of None \<Rightarrow> False | Some opts \<Rightarrow> validateDirtyOnly opts = Some False)"

definition onBlur ::
  "Rules \<Rightarrow> FormFields \<Rightarrow> FormulaFieldOptions option \<Rightarrow> Event \<Rightarrow> World
     \<Rightarrow> exn option \<times> World" where
  "onBlur rules input inputOptions e w =
     (case getProp (formData w) (name input) of
        None \<Rightarrow> (Some TypeError, w)
      | Some entry \<Rightarrow>
          (let w1 = updField (name input) (\<lambda>x. x\<lparr>isFocused := False\<rparr>) w;
               (thrown, w2) =
                 (if \<not> isTouched entry
                  then (let w3 = updField (name input) (\<lambda>x. x\<lparr>isTouched := True\<rparr>) w1 in
                        if validateDirtyOnlyIsFalse inputOptions
                        then applyFieldValidation rules input inputOptions w3
                        else (None, w3))
                  else (None, w1))
           in case thrown of
                Some ex \<Rightarrow> (Some ex, w2)
              | None \<Rightarrow>
                  if emitAllowed inputOptions Events_blur
                  then (None, emitField Events_blur input w2)
                  else (None, w2)))"

text \<open>\<^verbatim>\<open>inputOptions?.validateOn || Events.change\<close>\<close>

definition selectedEvent :: "FormulaFieldOptions option \<Rightarrow> string" where
  "selectedEvent inputOptions =
     (case inputOptions of
        None \<Rightarrow> Events_change
      | Some opts \<Rightarrow>
          (case validateOn opts of
             None \<Rightarrow> Events_change
           | Some ev \<Rightarrow> if ev = [] then Events_change else ev))"

text \<open>
  \<^verbatim>\<open>isCheckbox(input) ? !!(target as HTMLInputElement).checked : target.value\<close>, with
  \<^verbatim>\<open>target = e.target\<close>
\<close>

definition changedValue :: "FormFields \<Rightarrow> Event \<Rightarrow> InputValue" where
  "changedValue input e =
     (if isCheckbox input then BooleanValue (truthy_checked (target e))
      else StringValue (value' (target e)))"

definition onChange ::
  "Rules \<Rightarrow> FormFields \<Rightarrow> FormulaFieldOptions option \<Rightarrow> Event \<Rightarrow> World
     \<Rightarrow> exn option \<times> World" where
  "onChange rules input inputOptions e w =
     (case getProp (formData w) (name input) of
        None \<Rightarrow> (Some TypeError, w)
      | Some entry \<Rightarrow>
          (let w1 = updField (name input) (\<lambda>x. x\<lparr>fvalue := changedValue input e\<rparr>) w in
           case applyFieldValidation rules input inputOptions w1 of
             (Some ex, w2) \<Rightarrow> (Some ex, w2)
           | (None, w2) \<Rightarrow>
               (case getProp (formData w2) (name input) of
                  None \<Rightarrow> (Some TypeError, w2)
                | Some current \<Rightarrow>
                    (let w3 = (if \<not> isDirty current
                               then updField (name input) (\<lambda>x. x\<lparr>isDirty := True\<rparr>) w2
                               else w2)
                     in if emitAllowed inputOptions (selectedEvent inputOptions)
                        then (None, emitField (selectedEvent inputOptions) input w3)
                        else (None, w3)))))"

text \<open>
  The loop of \<^verbatim>\<open>onSubmit\<close>, with the local \<^verbatim>\<open>isValid\<close> as an accumulator. It stops at
  the first exception.
\<close>

fun submitLoop ::
  "Rules \<Rightarrow> FormulaValidations option \<Rightarrow> FormFields list \<Rightarrow> bool \<Rightarrow> World
     \<Rightarrow> exn option \<times> bool \<times> World" where
  "submitLoop rules options [] valid w = (None, valid, w)"
| "submitLoop rules options (input # rest) valid w =
     (case applyFieldValidation rules input (optionsFor options input) w of
        (Some ex, w1) \<Rightarrow> (Some ex, valid, w1)
      | (None, w1) \<Rightarrow>
          (case getProp (formData w1) (name input) of
             None \<Rightarrow> (Some TypeError, valid, w1)
           | Some entry \<Rightarrow>
               submitLoop rules options rest (if \<not> isValid entry then False else valid) w1))"

definition onSubmit ::
  "Rules \<Rightarrow> FormFields list \<Rightarrow> FormulaValidations option \<Rightarrow> Event \<Rightarrow> World
     \<Rightarrow> exn option \<times> Event \<times> World" where
  "onSubmit rules inputs options e w =
     (let e1 = preventDefault e in
      case submitLoop rules options inputs True w of
        (Some ex, valid, w1) \<Rightarrow> (Some ex, e1, w1)
      | (None, valid, w1) \<Rightarrow>
          (None, e1, emit Events_submit (SubmitPayload (formData w1) valid) w1))"

section \<open>Sequences of handler calls\<close>

text \<open>
  One call of a handler by the host. An exception ends the call and goes to the host;
  the world stays as the call left it.
\<close>

datatype Invocation =
    Focus FormFields "FormulaFieldOptions option" Event
  | Blur FormFields "FormulaFieldOptions option" Event
  | Change FormFields "FormulaFieldOptions option" Event
  | Submit "FormFields list" "FormulaValidations option" Event

fun invoke :: "Rules \<Rightarrow> Invocation \<Rightarrow> World \<Rightarrow> World" where
  "invoke rules (Focus input inputOptions e) w = snd (onFocus input inputOptions e w)"
| "invoke rules (Blur input inputOptions e) w = snd (onBlur rules input inputOptions e w)"
| "invoke rules (Change input inputOptions e) w = snd (onChange rules input inputOptions e w)"
| "invoke rules (Submit inputs options e) w = snd (snd (onSubmit rules inputs options e w))"

definition run :: "Rules \<Rightarrow> Invocation list \<Rightarrow> World \<Rightarrow> World" where
  "run rules calls w = foldl (\<lambda>w1 call. invoke rules call w1) w calls"

text \<open>The focus and the blur calls of the field with a given name.\<close>

fun focusOf :: "string \<Rightarrow> Invocation \<Rightarrow> bool" where
  "focusOf key (Focus input inputOptions e) = (name input = key)"
| "focusOf key call = False"

fun blurOf :: "string \<Rightarrow> Invocation \<Rightarrow> bool" where
  "blurOf key (Blur input inputOptions e) = (name input = key)"
| "blurOf key call = False"

section \<open>Listeners\<close>

text \<open>
  A handler is a closure: each call of \<^verbatim>\<open>onChange\<close>, \<^verbatim>\<open>onFocus\<close> or \<^verbatim>\<open>onBlur\<close>
  makes a new function object, told apart from every other by its identity. It captures
  the control and the control's options.
\<close>

datatype HandlerKind = ChangeHandler | FocusHandler | BlurHandler

record Callback =
  ident :: nat
  kind :: HandlerKind
  boundInput :: FormFields
  boundOptions :: "FormulaFieldOptions option"

text \<open>The entry \<^verbatim>\<open>fns[input.name]\<close> of \<^verbatim>\<open>ChangeCallbacks\<close>.\<close>

record Handles =
  change :: Callback
  focus :: Callback
  blur :: Callback

type_synonym ChangeCallbacks = "string \<Rightarrow> Handles option"

text \<open>
  The host: the listeners registered on the controls, as triples of control, event name
  and handler in the order of registration; the next free closure identity; the world.
  A control is identified by its record: the controls of one form are told apart by their
  name, value or element, and a control is looked up as it was when it was subscribed.
\<close>

record Host =
  listeners :: "(FormFields \<times> string \<times> Callback) list"
  nextIdent :: nat
  world :: World

definition newCallback ::
  "HandlerKind \<Rightarrow> FormFields \<Rightarrow> FormulaFieldOptions option \<Rightarrow> Host \<Rightarrow> Callback \<times> Host" where
  "newCallback k input inputOptions h =
     (\<lparr>ident = nextIdent h, kind = k, boundInput = input, boundOptions = inputOptions\<rparr>,
      h\<lparr>nextIdent := Suc (nextIdent h)\<rparr>)"

text \<open>
  \<^verbatim>\<open>addEventListener\<close> does nothing when the same handler is already registered on
  the control for the event; \<^verbatim>\<open>removeEventListener\<close> does nothing when the handler is
  not registered there.
\<close>

definition addEventListener :: "FormFields \<Rightarrow> string \<Rightarrow> Callback \<Rightarrow> Host \<Rightarrow> Host" where
  "addEventListener input eventName cb h =
     (if (input, eventName, cb) \<in> set (listeners h) then h
      else h\<lparr>listeners := listeners h @ [(input, eventName, cb)]\<rparr>)"

definition removeEventListener :: "FormFields \<Rightarrow> string \<Rightarrow> Callback \<Rightarrow> Host \<Rightarrow> Host" where
  "removeEventListener input eventName cb h =
     h\<lparr>listeners := remove1 (input, eventName, cb) (listeners h)\<rparr>"

text \<open>
  The loop of \<^verbatim>\<open>subscribeToInputChanges\<close>. The handlers registered are read from
  \<^verbatim>\<open>fns[input.name]\<close>, which is the entry just stored.
\<close>

fun subscribeLoop ::
  "FormFields list \<Rightarrow> FormulaValidations option \<Rightarrow> ChangeCallbacks \<Rightarrow> Host
     \<Rightarrow> ChangeCallbacks \<times> Host" where
  "subscribeLoop [] options fns h = (fns, h)"
| "subscribeLoop (input # rest) options fns h =
     (let inputOptions = optionsFor options input;
          (c, h1) = newCallback ChangeHandler input inputOptions h;
          (f, h2) = newCallback FocusHandler input inputOptions h1;
          (b, h3) = newCallback BlurHandler input inputOptions h2;
          fns1 = fns(name input \<mapsto> \<lparr>change = c, focus = f, blur = b\<rparr>);
          h4 = addEventListener input (selectedEvent inputOptions) c h3;
          h5 = addEventListener input Events_focus f h4;
          h6 = addEventListener input Events_blur b h5
      in subscribeLoop rest options fns1 h6)"

definition subscribeToInputChanges ::
  "FormFields list \<Rightarrow> FormulaValidations option \<Rightarrow> Host \<Rightarrow> ChangeCallbacks \<times> Host" where
  "subscribeToInputChanges inputs options h = subscribeLoop inputs options Map.empty h"

text \<open>
  \<^verbatim>\<open>unsubscribeFromInputChanges\<close>; reading \<^verbatim>\<open>fns[input.name].change\<close> throws when
  \<^verbatim>\<open>fns\<close> has no entry for the name.
\<close>

fun unsubscribeFromInputChanges ::
  "FormFields list \<Rightarrow> ChangeCallbacks \<Rightarrow> FormulaValidations option \<Rightarrow> Host
     \<Rightarrow> exn option \<times> Host" where
  "unsubscribeFromInputChanges [] fns options h = (None, h)"
| "unsubscribeFromInputChanges (input # rest) fns options h =
     (let inputOptions = optionsFor options input in
      case fns (name input) of
        None \<Rightarrow> (Some TypeError, h)
      | Some handles \<Rightarrow>
          (let h1 = removeEventListener input (selectedEvent inputOptions) (change handles) h;
               h2 = removeEventListener input Events_focus (focus handles) h1;
               h3 = removeEventListener input Events_blur (blur handles) h2
           in unsubscribeFromInputChanges rest fns options h3))"

text \<open>Calling a handler: the closure runs the code it was made from.\<close>

definition call :: "Rules \<Rightarrow> Callback \<Rightarrow> Event \<Rightarrow> World \<Rightarrow> exn option \<times> World" where
  "call rules cb e w =
     (case kind cb of
        ChangeHandler \<Rightarrow> onChange rules (boundInput cb) (boundOptions cb) e w
      | FocusHandler \<Rightarrow> onFocus (boundInput cb) (boundOptions cb) e w
      | BlurHandler \<Rightarrow> onBlur rules (boundInput cb) (boundOptions cb) e w)"

text \<open>
  The host dispatches an event of a given name on a control: the handlers registered on
  that control for that name run in the order of registration; an exception thrown by one
  of them does not keep the others from running.
\<close>

definition listenersFor :: "FormFields \<Rightarrow> string \<Rightarrow> Host \<Rightarrow> Callback list" where
  "listenersFor input eventName h =
     map (\<lambda>(el, ev, cb). cb) (filter (\<lambda>(el, ev, cb). el = input \<and> ev = eventName) (listeners h))"

definition dispatchEvent :: "Rules \<Rightarrow> FormFields \<Rightarrow> string \<Rightarrow> Event \<Rightarrow> Host \<Rightarrow> Host" where
  "dispatchEvent rules input eventName e h =
     h\<lparr>world := foldl (\<lambda>w cb. snd (call rules cb e w)) (world h) (listenersFor input eventName h)\<rparr>"

section \<open>Auxiliary notions\<close>

text \<open>
  A step from \<open>w\<close> to \<open>w'\<close> keeps the entry of \<open>key\<close>: the entry is still there,
  \<^verbatim>\<open>isTouched\<close> and \<^verbatim>\<open>isDirty\<close> have not gone back to false, and \<^verbatim>\<open>isFocused\<close>
  is \<open>foc\<close> of what it was.
\<close>

definition keeps :: "string \<Rightarrow> (bool \<Rightarrow> bool) \<Rightarrow> World \<Rightarrow> World \<Rightarrow> bool" where
  "keeps key foc w w' =
     (\<forall>entry. getProp (formData w) key = Some entry \<longrightarrow>
        (\<exists>entry'. getProp (formData w') key = Some entry'
           \<and> (isTouched entry \<longrightarrow> isTouched entry')
           \<and> (isDirty entry \<longrightarrow> isDirty entry')
           \<and> isFocused entry' = foc (isFocused entry)))"

text \<open>
  The handles that a subscription makes for one control when the next free closure
  identity is \<open>n\<close>, the three listeners it registers for them, and both for a whole list
  of controls.
\<close>

definition handlesFrom :: "nat \<Rightarrow> FormFields \<Rightarrow> FormulaFieldOptions option \<Rightarrow> Handles" where
  "handlesFrom n input inputOptions =
     \<lparr> change = \<lparr>ident = n, kind = ChangeHandler, boundInput = input,
                   boundOptions = inputOptions\<rparr>,
       focus = \<lparr>ident = Suc n, kind = FocusHandler, boundInput = input,
                  boundOptions = inputOptions\<rparr>,
       blur = \<lparr>ident = Suc (Suc n), kind = BlurHandler, boundInput = input,
                 boundOptions = inputOptions\<rparr> \<rparr>"

definition registrations ::
  "FormFields \<Rightarrow> FormulaFieldOptions option \<Rightarrow> Handles
     \<Rightarrow> (FormFields \<times> string \<times> Callback) list" where
  "registrations input inputOptions handles =
     [(input, selectedEvent inputOptions, change handles),
      (input, Events_focus, focus handles),
      (input, Events_blur, blur handles)]"

fun allRegistrations ::
  "nat \<Rightarrow> FormFields list \<Rightarrow> FormulaValidations option
     \<Rightarrow> (FormFields \<times> string \<times> Callback) list" where
  "allRegistrations n [] options = []"
| "allRegistrations n (input # rest) options =
     registrations input (optionsFor options input)
       (handlesFrom n input (optionsFor options input))
     @ allRegistrations (Suc (Suc (Suc n))) rest options"

fun allHandles ::
  "nat \<Rightarrow> FormFields list \<Rightarrow> FormulaValidations option \<Rightarrow> ChangeCallbacks
     \<Rightarrow> ChangeCallbacks" where
  "allHandles n [] options fns = fns"
| "allHandles n (input # rest) options fns =
     allHandles (Suc (Suc (Suc n))) rest options
       (fns(name input \<mapsto> handlesFrom n input (optionsFor options input)))"

text \<open>Every closure on the host was made before the next free identity.\<close>

definition freshIdents :: "Host \<Rightarrow> bool" where
  "freshIdents h = (\<forall>(el, ev, cb) \<in> set (listeners h). ident cb < nextIdent h)"

section \<open>Scenarios and sample data\<close>

text \<open>
  The host as it is right after \<^verbatim>\<open>createFormData\<close>: no listener registered, nothing
  published, nothing validated.
\<close>

definition freshHost :: "FormFields list \<Rightarrow> Host" where
  "freshHost inputs =
     \<lparr> listeners = [], nextIdent = 0,
       world = \<lparr> formData = createFormData inputs, emitted = [], validated = [] \<rparr> \<rparr>"

text \<open>
  Subscribing the controls on a fresh host and then unsubscribing them, with the same
  options (none) and the handles that the subscription returned.
\<close>

definition subscribeThenUnsubscribe :: "FormFields list \<Rightarrow> exn option \<times> Host" where
  "subscribeThenUnsubscribe inputs =
     (case subscribeToInputChanges inputs None (freshHost inputs) of
        (fns, h) \<Rightarrow> unsubscribeFromInputChanges inputs fns None h)"

definition textControl :: "string \<Rightarrow> FormFields" where
  "textControl key = \<lparr>name = key, value' = [], element = HTMLInputElement ''text'' False\<rparr>"

definition radioControl :: "string \<Rightarrow> string \<Rightarrow> FormFields" where
  "radioControl key v = \<lparr>name = key, value' = v, element = HTMLInputElement ''radio'' False\<rparr>"

definition eventOn :: "FormFields \<Rightarrow> Event" where
  "eventOn control = \<lparr>target = control, defaultPrevented = False\<rparr>"

text \<open>A rule engine that never throws and finds exactly the field \<open>bad\<close> invalid.\<close>

definition rejecting :: "string \<Rightarrow> Rules" where
  "rejecting bad input w inputOptions =
     (if name input = bad then Inr (False, [''invalid'']) else Inr (True, []))"

text \<open>A rule engine that throws for the field \<open>bad\<close> and accepts every other field.\<close>

definition throwing :: "string \<Rightarrow> Rules" where
  "throwing bad input w inputOptions =
     (if name input = bad then Inl (ValidationFailure ''rule failed'') else Inr (True, []))"

definition radioGroup :: "FormFields list" where
  "radioGroup = [radioControl ''color'' ''red'', radioControl ''color'' ''blue'']"

definition checkboxControl :: "string \<Rightarrow> bool \<Rightarrow> FormFields" where
  "checkboxControl key c =
     \<lparr>name = key, value' = ''on'', element = HTMLInputElement ''checkbox'' c\<rparr>"

section \<open>Unfolding the definitions on concrete data\<close>

lemmas sample_defs =
  textControl_def radioControl_def eventOn_def rejecting_def throwing_def freshHost_def

lemmas handler_defs =
  onFocus_def onBlur_def onChange_def onSubmit_def applyFieldValidation_def emitField_def
  emit_def updField_def getProp_def emitAllowed_def selectedEvent_def validateDirtyOnlyIsFalse_def
  changedValue_def optionsFor_def preventDefault_def Let_def
  Events_change_def Events_focus_def Events_blur_def Events_submit_def

lemmas build_defs =
  createFormData_def setProp_def initialField_def getInputValue_def isRadio_def isCheckbox_def
  truthy_checked_def checked_def nativeInputType_def isArrayIndex_def isDigit_def orEmpty_def

lemmas dom_defs =
  subscribeToInputChanges_def newCallback_def addEventListener_def removeEventListener_def
  dispatchEvent_def listenersFor_def call_def

section \<open>Properties of the form object\<close>

lemma getProp_insertIndex:
  "getProp (insertIndex obj key v) k = (if k = key then Some v else getProp obj k)"
  by (induction obj key v rule: insertIndex.induct) (auto simp: getProp_def)

lemma getProp_replace:
  "getProp (map (\<lambda>(k, x). if k = key then (k, f x) else (k, x)) obj) k =
     (if k = key then map_option f (getProp obj k) else getProp obj k)"
  by (induction obj) (auto simp: getProp_def)

lemma getProp_None_iff: "getProp obj k = None \<longleftrightarrow> k \<notin> fst ` set obj"
  by (simp add: getProp_def map_of_eq_None_iff)

lemma getProp_setProp:
  "getProp (setProp obj key v) k = (if k = key then Some v else getProp obj k)"
proof (cases "key \<in> fst ` set obj")
  case True
  then obtain y where "getProp obj key = Some y"
    using getProp_None_iff [of obj key] by auto
  with True show ?thesis
    using getProp_replace [of key "\<lambda>_. v" obj k] by (simp add: setProp_def)
next
  case False
  then show ?thesis
  proof (cases "isArrayIndex key")
    case True
    with False show ?thesis by (simp add: setProp_def getProp_insertIndex)
  next
    case nonIndex: False
    have "getProp (obj @ [(key, v)]) k = (if k = key then Some v else getProp obj k)"
    proof -
      have "map_of obj key = None"
        using False by (simp add: map_of_eq_None_iff)
      then show ?thesis
        by (simp add: getProp_def map_add_def split: option.splits)
    qed
    with False nonIndex show ?thesis by (simp add: setProp_def)
  qed
qed

lemma keys_insertIndex: "set (map fst (insertIndex obj key v)) = insert key (fst ` set obj)"
  by (induction obj key v rule: insertIndex.induct) auto

lemma length_insertIndex: "length (insertIndex obj key v) = Suc (length obj)"
  by (induction obj key v rule: insertIndex.induct) auto

lemma keys_replace:
  "map fst (map (\<lambda>(k, x). if k = key then (k, f x) else (k, x)) obj) = map fst obj"
  by (induction obj) auto

lemma length_setProp:
  "length (setProp obj key v) = (if key \<in> fst ` set obj then length obj else Suc (length obj))"
  by (simp add: setProp_def length_insertIndex)

lemma keyset_setProp: "fst ` set (setProp obj key v) = insert key (fst ` set obj)"
proof -
  have "fst ` set obj = {k. getProp obj k \<noteq> None}" for obj
    using getProp_None_iff by auto
  then show ?thesis
    by (auto simp: getProp_setProp)
qed

lemma set_insertIndex: "set (insertIndex obj key v) = insert (key, v) (set obj)"
  by (induction obj key v rule: insertIndex.induct) auto

lemma set_setProp: "set (setProp obj key v) \<subseteq> insert (key, v) (set obj)"
  by (auto simp: setProp_def set_insertIndex split: if_splits)

lemma createFormData_snoc:
  "createFormData (inputs @ [cur]) =
     setProp (createFormData inputs) (name cur) (initialField (createFormData inputs) cur)"
  by (simp add: createFormData_def)

lemma keyset_createFormData: "fst ` set (createFormData inputs) = name ` set inputs"
  by (induction inputs rule: rev_induct)
     (auto simp: createFormData_snoc keyset_setProp, simp add: createFormData_def)

lemma indexKeysFirst_split:
  "indexKeysFirst ks \<Longrightarrow> ks = filter isArrayIndex ks @ filter (\<lambda>k. \<not> isArrayIndex k) ks"
proof (induction ks)
  case Nil
  show ?case by simp
next
  case (Cons k ks)
  show ?case
  proof (cases "isArrayIndex k")
    case True
    with Cons show ?thesis by simp
  next
    case False
    with Cons.prems have none: "\<forall>k' \<in> set ks. \<not> isArrayIndex k'" by simp
    then have "filter isArrayIndex ks = []" and "filter (\<lambda>k. \<not> isArrayIndex k) ks = ks"
      by (simp_all add: filter_empty_conv filter_id_conv)
    with False show ?thesis by simp
  qed
qed

lemma indexKeysFirst_sorted:
  "indexKeysFirst ks \<Longrightarrow> sorted (map parseNat (filter isArrayIndex ks))"
  by (induction ks) (auto split: if_splits)

lemma keys_setProp:
  "map fst (setProp obj key v) =
     (if key \<in> fst ` set obj then map fst obj
      else if isArrayIndex key then map fst (insertIndex obj key v)
      else map fst obj @ [key])"
  using keys_replace [of key "\<lambda>_. v" obj] by (simp add: setProp_def)

lemma indexKeysFirst_insertIndex:
  "indexKeysFirst (map fst obj) \<Longrightarrow> isArrayIndex key
     \<Longrightarrow> indexKeysFirst (map fst (insertIndex obj key v))"
proof (induction obj key v rule: insertIndex.induct)
  case (1 key v)
  then show ?case by simp
next
  case (2 k x rest key v)
  show ?case
  proof (cases "isArrayIndex k \<and> parseNat k < parseNat key")
    case True
    with 2 have "indexKeysFirst (map fst (insertIndex rest key v))" by simp
    moreover have "\<forall>k' \<in> set (map fst (insertIndex rest key v)).
        isArrayIndex k' \<longrightarrow> parseNat k \<le> parseNat k'"
      using True "2.prems" unfolding keys_insertIndex by auto
    ultimately show ?thesis using True by simp
  next
    case False
    have "\<forall>k' \<in> set (k # map fst rest). isArrayIndex k' \<longrightarrow> parseNat key \<le> parseNat k'"
      using False "2.prems" by (cases "isArrayIndex k") (auto simp: not_less)
    then show ?thesis using False "2.prems" by auto
  qed
qed

lemma indexKeysFirst_append:
  "indexKeysFirst ks \<Longrightarrow> \<not> isArrayIndex key \<Longrightarrow> indexKeysFirst (ks @ [key])"
  by (induction ks) (auto split: if_splits)

lemma nonIndex_insertIndex:
  "isArrayIndex key \<Longrightarrow>
     filter (\<lambda>k. \<not> isArrayIndex k) (map fst (insertIndex obj key v)) =
     filter (\<lambda>k. \<not> isArrayIndex k) (map fst obj)"
  by (induction obj key v rule: insertIndex.induct) auto

lemma indexKeysFirst_createFormData: "indexKeysFirst (map fst (createFormData inputs))"
proof (induction inputs rule: rev_induct)
  case Nil
  show ?case by (simp add: createFormData_def)
next
  case (snoc cur inputs)
  then show ?case
    by (simp add: createFormData_snoc keys_setProp indexKeysFirst_insertIndex
        indexKeysFirst_append del: map_append)
qed

lemma nonIndex_createFormData:
  "distinct (map name inputs) \<Longrightarrow>
     filter (\<lambda>k. \<not> isArrayIndex k) (map fst (createFormData inputs)) =
     filter (\<lambda>k. \<not> isArrayIndex k) (map name inputs)"
proof (induction inputs rule: rev_induct)
  case Nil
  show ?case by (simp add: createFormData_def)
next
  case (snoc cur inputs)
  then have fresh: "name cur \<notin> fst ` set (createFormData inputs)"
    by (simp add: keyset_createFormData)
  from snoc have IH: "filter (\<lambda>k. \<not> isArrayIndex k) (map fst (createFormData inputs)) =
     filter (\<lambda>k. \<not> isArrayIndex k) (map name inputs)" by simp
  show ?case
    using fresh IH by (simp add: createFormData_snoc keys_setProp nonIndex_insertIndex)
qed

lemma length_createFormData:
  "distinct (map name inputs) \<Longrightarrow> length (createFormData inputs) = length inputs"
proof (induction inputs rule: rev_induct)
  case Nil
  show ?case by (simp add: createFormData_def)
next
  case (snoc cur inputs)
  then have "name cur \<notin> fst ` set (createFormData inputs)"
    by (simp add: keyset_createFormData)
  with snoc show ?case
    by (simp add: createFormData_snoc length_setProp)
qed

lemma getProp_createFormData:
  "distinct (map name inputs) \<Longrightarrow> cur \<in> set inputs \<Longrightarrow>
     getProp (createFormData inputs) (name cur) = Some (initialField [] cur)"
proof (induction inputs rule: rev_induct)
  case Nil
  then show ?case by simp
next
  case (snoc x inputs)
  have fresh: "name x \<notin> fst ` set (createFormData inputs)"
    using snoc.prems by (simp add: keyset_createFormData)
  show ?case
  proof (cases "cur = x")
    case True
    have "getProp (createFormData inputs) (name x) = None"
      using fresh by (simp add: getProp_None_iff)
    then have "initialField (createFormData inputs) x = initialField [] x"
      by (simp add: initialField_def getProp_def)
    with True show ?thesis
      by (simp add: createFormData_snoc getProp_setProp)
  next
    case False
    with snoc.prems have mem: "cur \<in> set inputs" by simp
    from snoc.prems have "name x \<notin> name ` set inputs" by simp
    with mem have "name cur \<noteq> name x" by (metis imageI)
    note mem this
    with snoc show ?thesis
      by (simp add: createFormData_snoc getProp_setProp)
  qed
qed

lemma createFormData_initial:
  "(k, x) \<in> set (createFormData inputs) \<Longrightarrow>
     isValid x \<and> \<not> isTouched x \<and> \<not> isFocused x \<and> \<not> isDirty x \<and> errors x = []"
proof (induction inputs rule: rev_induct)
  case Nil
  then show ?case by (simp add: createFormData_def)
next
  case (snoc cur inputs)
  from snoc.prems
  have "(k, x) \<in> set (createFormData inputs)
      \<or> x = initialField (createFormData inputs) cur"
    using set_setProp [of "createFormData inputs" "name cur" "initialField (createFormData inputs) cur"]
    by (auto simp: createFormData_snoc)
  with snoc.IH show ?case
    by (auto simp: initialField_def)
qed

section \<open>Values read from the controls\<close>

text \<open>
  C4 (as amended). For a radio button, \<^verbatim>\<open>getInputValue\<close> returns the control's own
  value when it is checked, whatever the previous value is. When it is not checked, the
  result is \<^verbatim>\<open>previousValue || ""\<close>: the previous value when there is one, except that
  a previous value of boolean false gives the empty string; the empty string when there
  is none.
\<close>

theorem getInputValue_radio:
  assumes "isRadio input"
  shows "(truthy_checked input \<longrightarrow>
            getInputValue input previousValue = StringValue (value' input))
       \<and> (\<not> truthy_checked input \<longrightarrow>
            getInputValue input previousValue =
              (if previousValue = Some (BooleanValue False) then StringValue ''''
               else nullishOrEmpty previousValue))"
proof -
  have "orEmpty previousValue =
      (if previousValue = Some (BooleanValue False) then StringValue ''''
       else nullishOrEmpty previousValue)"
    by (auto simp: orEmpty_def nullishOrEmpty_def split: option.splits InputValue.splits)
  with assms show ?thesis
    by (simp add: getInputValue_def)
qed

theorem getInputValue_radio_witness:
  "isRadio \<lparr>name = ''color'', value' = ''red'', element = HTMLInputElement ''radio'' False\<rparr>
   \<and> getInputValue
        \<lparr>name = ''color'', value' = ''red'', element = HTMLInputElement ''radio'' False\<rparr>
        (Some (StringValue ''blue'')) = StringValue ''blue''
   \<and> getInputValue
        \<lparr>name = ''color'', value' = ''red'', element = HTMLInputElement ''radio'' False\<rparr>
        None = StringValue ''''"
proof -
  let ?radio = "\<lparr>name = ''color'', value' = ''red'', element = HTMLInputElement ''radio'' False\<rparr>"
  have radio: "isRadio ?radio"
    by (simp add: isRadio_def)
  have notChecked: "\<not> truthy_checked ?radio"
    by (simp add: truthy_checked_def checked_def)
  show ?thesis
    using radio notChecked
      getInputValue_radio [OF radio, of "Some (StringValue ''blue'')"]
      getInputValue_radio [OF radio, of None]
    by (simp add: nullishOrEmpty_def)
qed

text \<open>
  The fallback is not \<^verbatim>\<open>previousValue ?? ""\<close>: an unchecked radio button whose
  previous value is boolean false yields the empty string, not the previous value.
\<close>

theorem getInputValue_radio_nullish_counterexample:
  "getInputValue
     \<lparr>name = ''color'', value' = ''red'', element = HTMLInputElement ''radio'' False\<rparr>
     (Some (BooleanValue False))
   \<noteq> nullishOrEmpty (Some (BooleanValue False))"
  by (simp add: getInputValue_def isRadio_def truthy_checked_def checked_def orEmpty_def
      nullishOrEmpty_def)

section \<open>The initial form data\<close>

text \<open>
  C8 (as amended). For \<open>N\<close> controls with distinct names, \<^verbatim>\<open>createFormData\<close> yields
  exactly \<open>N\<close> entries, one per control name; each entry has the value computed by
  \<^verbatim>\<open>getInputValue\<close> with no previous value, \<^verbatim>\<open>isValid\<close> true, \<^verbatim>\<open>isTouched\<close>,
  \<^verbatim>\<open>isFocused\<close> and \<^verbatim>\<open>isDirty\<close> false, no errors, and as input type the type of the
  control if it is a native input and null otherwise. The entries are in declaration order
  when no control name is an array index; in general the names that are array indices come
  first, in ascending numeric order, followed by the other names in declaration order.
\<close>

theorem createFormData_entries:
  assumes "distinct (map name inputs)"
  shows "length (createFormData inputs) = length inputs
       \<and> fst ` set (createFormData inputs) = name ` set inputs
       \<and> (\<forall>cur \<in> set inputs.
            getProp (createFormData inputs) (name cur) =
              Some \<lparr> fvalue = getInputValue cur None,
                     isValid = True, isTouched = False, isFocused = False, isDirty = False,
                     errors = [],
                     inputType = (case element cur of
                                    HTMLInputElement t c \<Rightarrow> Some t | _ \<Rightarrow> None) \<rparr>)
       \<and> ((\<forall>cur \<in> set inputs. \<not> isArrayIndex (name cur)) \<longrightarrow>
            map fst (createFormData inputs) = map name inputs)
       \<and> map fst (createFormData inputs) =
            filter isArrayIndex (map fst (createFormData inputs))
            @ filter (\<lambda>k. \<not> isArrayIndex k) (map name inputs)
       \<and> sorted (map parseNat (filter isArrayIndex (map fst (createFormData inputs))))"
proof -
  let ?keys = "map fst (createFormData inputs)"
  have shape: "indexKeysFirst ?keys"
    by (rule indexKeysFirst_createFormData)
  have rest: "filter (\<lambda>k. \<not> isArrayIndex k) ?keys = filter (\<lambda>k. \<not> isArrayIndex k) (map name inputs)"
    using assms by (rule nonIndex_createFormData)
  have split: "?keys = filter isArrayIndex ?keys @ filter (\<lambda>k. \<not> isArrayIndex k) (map name inputs)"
    using indexKeysFirst_split [OF shape] rest by simp
  have entries: "\<forall>cur \<in> set inputs.
      getProp (createFormData inputs) (name cur) =
        Some \<lparr> fvalue = getInputValue cur None,
               isValid = True, isTouched = False, isFocused = False, isDirty = False,
               errors = [],
               inputType = (case element cur of HTMLInputElement t c \<Rightarrow> Some t | _ \<Rightarrow> None) \<rparr>"
    using getProp_createFormData [OF assms]
    by (simp add: initialField_def nativeInputType_def getProp_def)
  have plain: "?keys = map name inputs" if none: "\<forall>cur \<in> set inputs. \<not> isArrayIndex (name cur)"
  proof -
    have "filter isArrayIndex ?keys = []"
      using none keyset_createFormData [of inputs] by (auto simp: filter_empty_conv)
    moreover have "filter (\<lambda>k. \<not> isArrayIndex k) (map name inputs) = map name inputs"
      using none by (simp add: filter_id_conv)
    ultimately show ?thesis using split by simp
  qed
  show ?thesis
    using length_createFormData [OF assms] keyset_createFormData [of inputs] entries plain split
      indexKeysFirst_sorted [OF shape]
    by blast
qed

theorem createFormData_entries_witness:
  "distinct (map name
      [\<lparr>name = ''email'', value' = ''a@b.com'', element = HTMLInputElement ''email'' False\<rparr>,
       \<lparr>name = ''agree'', value' = ''on'', element = HTMLInputElement ''checkbox'' True\<rparr>,
       \<lparr>name = ''notes'', value' = ''hi'', element = HTMLTextAreaElement\<rparr>])
   \<and> map fst (createFormData
      [\<lparr>name = ''email'', value' = ''a@b.com'', element = HTMLInputElement ''email'' False\<rparr>,
       \<lparr>name = ''agree'', value' = ''on'', element = HTMLInputElement ''checkbox'' True\<rparr>,
       \<lparr>name = ''notes'', value' = ''hi'', element = HTMLTextAreaElement\<rparr>])
     = [''email'', ''agree'', ''notes'']
   \<and> getProp (createFormData
      [\<lparr>name = ''email'', value' = ''a@b.com'', element = HTMLInputElement ''email'' False\<rparr>,
       \<lparr>name = ''agree'', value' = ''on'', element = HTMLInputElement ''checkbox'' True\<rparr>,
       \<lparr>name = ''notes'', value' = ''hi'', element = HTMLTextAreaElement\<rparr>]) ''agree''
     = Some \<lparr> fvalue = BooleanValue True,
              isValid = True, isTouched = False, isFocused = False, isDirty = False,
              errors = [], inputType = Some ''checkbox'' \<rparr>"
proof -
  let ?inputs =
     "[\<lparr>name = ''email'', value' = ''a@b.com'', element = HTMLInputElement ''email'' False\<rparr>,
       \<lparr>name = ''agree'', value' = ''on'', element = HTMLInputElement ''checkbox'' True\<rparr>,
       \<lparr>name = ''notes'', value' = ''hi'', element = HTMLTextAreaElement\<rparr>]"
  have names: "distinct (map name ?inputs)"
    by simp
  have plain: "\<forall>cur \<in> set ?inputs. \<not> isArrayIndex (name cur)"
    by (simp add: isArrayIndex_def isDigit_def)
  show ?thesis
    using names plain createFormData_entries [OF names]
    by (simp add: getInputValue_def isRadio_def isCheckbox_def truthy_checked_def checked_def)
qed

text \<open>
  Declaration order is not kept for a name that is an array index: declared after
  \<^verbatim>\<open>b\<close>, the control named \<^verbatim>\<open>1\<close> is the first entry.
\<close>

theorem createFormData_order_counterexample:
  "distinct (map name
      [\<lparr>name = ''b'', value' = ''x'', element = HTMLSelectElement\<rparr>,
       \<lparr>name = ''1'', value' = ''y'', element = HTMLSelectElement\<rparr>])
   \<and> map fst (createFormData
      [\<lparr>name = ''b'', value' = ''x'', element = HTMLSelectElement\<rparr>,
       \<lparr>name = ''1'', value' = ''y'', element = HTMLSelectElement\<rparr>])
     \<noteq> map name
      [\<lparr>name = ''b'', value' = ''x'', element = HTMLSelectElement\<rparr>,
       \<lparr>name = ''1'', value' = ''y'', element = HTMLSelectElement\<rparr>]"
  by (simp add: createFormData_def setProp_def isArrayIndex_def isDigit_def parseNat_def)

section \<open>The primitive steps of the handlers\<close>

lemma getProp_updField:
  "getProp (formData (updField key f w)) k =
     (if k = key then map_option f (getProp (formData w) k) else getProp (formData w) k)"
  by (simp add: updField_def getProp_replace)

lemma keys_updField: "map fst (formData (updField key f w)) = map fst (formData w)"
proof -
  have "formData (updField key f w) =
      map (\<lambda>(k, x). if k = key then (k, f x) else (k, x)) (formData w)"
    by (simp add: updField_def)
  then show ?thesis
    by (simp only: keys_replace)
qed

lemma emitted_updField: "emitted (updField key f w) = emitted w"
  by (simp add: updField_def)

lemma validated_updField: "validated (updField key f w) = validated w"
  by (simp add: updField_def)

lemma formData_emitField: "formData (emitField ev input w) = formData w"
  by (simp add: emitField_def emit_def)

lemma validated_emitField: "validated (emitField ev input w) = validated w"
  by (simp add: emitField_def emit_def)

lemma emitted_emitField:
  "emitted (emitField ev input w) =
     emitted w @ [(ev, FieldPayload (getProp (formData w) (name input)))]"
  by (simp add: emitField_def emit_def)

lemmas world_simps =
  getProp_updField keys_updField emitted_updField validated_updField
  formData_emitField validated_emitField emitted_emitField

lemma validated_applyFieldValidation:
  "validated (snd (applyFieldValidation rules input inputOptions w)) = validated w @ [input]"
  by (simp add: applyFieldValidation_def Let_def validated_updField
      split: sum.splits option.splits prod.splits)

lemma emitted_applyFieldValidation:
  "emitted (snd (applyFieldValidation rules input inputOptions w)) = emitted w"
  by (simp add: applyFieldValidation_def Let_def emitted_updField
      split: sum.splits option.splits prod.splits)

lemma keys_applyFieldValidation:
  "map fst (formData (snd (applyFieldValidation rules input inputOptions w))) =
     map fst (formData w)"
  by (simp add: applyFieldValidation_def Let_def keys_updField
      split: sum.splits option.splits prod.splits)

lemma getProp_applyFieldValidation:
  "\<exists>f. (f = id \<or> (\<exists>v errs. f = (\<lambda>x. x\<lparr>isValid := v, errors := errs\<rparr>)))
     \<and> (\<forall>k. getProp (formData (snd (applyFieldValidation rules input inputOptions w))) k =
            (if k = name input then map_option f (getProp (formData w) k)
             else getProp (formData w) k))"
proof (cases "rules input w inputOptions")
  case (Inl ex)
  then have "\<forall>k. getProp (formData (snd (applyFieldValidation rules input inputOptions w))) k =
            (if k = name input then map_option id (getProp (formData w) k)
             else getProp (formData w) k)"
    by (simp add: applyFieldValidation_def Let_def option.map_id)
  then show ?thesis by blast
next
  case (Inr verdict)
  obtain v errs where verdict: "verdict = (v, errs)" by (cases verdict)
  show ?thesis
  proof (cases "getProp (formData w) (name input)")
    case None
    with Inr verdict
    have "\<forall>k. getProp (formData (snd (applyFieldValidation rules input inputOptions w))) k =
            (if k = name input then map_option id (getProp (formData w) k)
             else getProp (formData w) k)"
      by (simp add: applyFieldValidation_def Let_def option.map_id)
    then show ?thesis by blast
  next
    case (Some entry)
    with Inr verdict
    have "\<forall>k. getProp (formData (snd (applyFieldValidation rules input inputOptions w))) k =
            (if k = name input
             then map_option (\<lambda>x. x\<lparr>isValid := v, errors := errs\<rparr>) (getProp (formData w) k)
             else getProp (formData w) k)"
      by (simp add: applyFieldValidation_def Let_def getProp_updField)
    then show ?thesis by blast
  qed
qed

lemma applyFieldValidation_throws:
  "rules input w inputOptions = Inl ex \<Longrightarrow>
     applyFieldValidation rules input inputOptions w =
       (Some ex, w\<lparr>validated := validated w @ [input]\<rparr>)"
  by (simp add: applyFieldValidation_def Let_def)

lemma applyFieldValidation_stores:
  "rules input w inputOptions = Inr (v, errs) \<Longrightarrow>
   getProp (formData w) (name input) = Some entry \<Longrightarrow>
     applyFieldValidation rules input inputOptions w =
       (None, updField (name input) (\<lambda>x. x\<lparr>isValid := v, errors := errs\<rparr>)
                (w\<lparr>validated := validated w @ [input]\<rparr>))"
  by (simp add: applyFieldValidation_def Let_def)

section \<open>The blur handler\<close>

text \<open>
  C7. Every call of the blur handler on a field sets \<^verbatim>\<open>isFocused\<close> to false and leaves
  \<^verbatim>\<open>isTouched\<close> true. Validation is called for the field, once, exactly when the field
  was not touched before the call and \<^verbatim>\<open>validateDirtyOnly\<close> is explicitly false; in
  every other case the blur handler calls no validation.
\<close>

theorem onBlur_effect:
  assumes "getProp (formData w) (name input) = Some entry"
  shows "\<exists>entry'.
           getProp (formData (snd (onBlur rules input inputOptions e w))) (name input) = Some entry'
         \<and> \<not> isFocused entry' \<and> isTouched entry'
         \<and> validated (snd (onBlur rules input inputOptions e w)) =
             validated w @
               (if \<not> isTouched entry
                   \<and> (\<exists>opts. inputOptions = Some opts \<and> validateDirtyOnly opts = Some False)
                then [input] else [])"
proof -
  let ?key = "name input"
  let ?w1 = "updField ?key (\<lambda>x. x\<lparr>isFocused := False\<rparr>) w"
  let ?w3 = "updField ?key (\<lambda>x. x\<lparr>isTouched := True\<rparr>) ?w1"
  let ?v = "applyFieldValidation rules input inputOptions ?w3"
  have explicit: "validateDirtyOnlyIsFalse inputOptions \<longleftrightarrow>
      (\<exists>opts. inputOptions = Some opts \<and> validateDirtyOnly opts = Some False)"
    by (cases inputOptions) (simp_all add: validateDirtyOnlyIsFalse_def)
  obtain f where f: "f = id \<or> (\<exists>v errs. f = (\<lambda>x. x\<lparr>isValid := v, errors := errs\<rparr>))"
    and entries: "\<forall>k. getProp (formData (snd ?v)) k =
        (if k = ?key then map_option f (getProp (formData ?w3) k) else getProp (formData ?w3) k)"
    using getProp_applyFieldValidation [of rules input inputOptions ?w3] by blast
  have after: "getProp (formData (snd ?v)) ?key = map_option f (getProp (formData ?w3) ?key)"
    using entries by simp
  have kept: "isFocused (f x) = isFocused x \<and> isTouched (f x) = isTouched x" for x
    using f by auto
  show ?thesis
  proof (cases "isTouched entry")
    case True
    with assms show ?thesis
      by (simp add: onBlur_def Let_def world_simps)
  next
    case False
    show ?thesis
    proof (cases "validateDirtyOnlyIsFalse inputOptions")
      case notForced: False
      with False assms explicit show ?thesis
        by (simp add: onBlur_def Let_def world_simps)
    next
      case True
      obtain thrown w2 where v: "?v = (thrown, w2)" by (cases ?v)
      have "getProp (formData w2) ?key = Some (f (entry\<lparr>isFocused := False, isTouched := True\<rparr>))"
        using after assms v by (simp add: world_simps)
      moreover have "validated w2 = validated w @ [input]"
        using validated_applyFieldValidation [of rules input inputOptions ?w3] v
        by (simp add: world_simps)
      ultimately show ?thesis
        using False True assms explicit v kept
        by (cases thrown) (simp_all add: onBlur_def Let_def world_simps)
    qed
  qed
qed

theorem onBlur_effect_witness:
  "getProp (formData (world (freshHost [textControl ''email''])))
     (name (textControl ''email'')) = Some (initialField [] (textControl ''email''))
   \<and> validated (snd (onBlur (rejecting ''other'') (textControl ''email'')
        (Some \<lparr>validateOn = None, emitOn = None, validateDirtyOnly = Some False\<rparr>)
        (eventOn (textControl ''email''))
        (world (freshHost [textControl ''email''])))) = [textControl ''email'']
   \<and> validated (snd (onBlur (rejecting ''other'') (textControl ''email'') None
        (eventOn (textControl ''email''))
        (world (freshHost [textControl ''email''])))) = []"
proof -
  have entry: "getProp (formData (world (freshHost [textControl ''email''])))
     (name (textControl ''email'')) = Some (initialField [] (textControl ''email''))"
    by (simp add: sample_defs build_defs getProp_def)
  show ?thesis
    using entry
      onBlur_effect [OF entry, of "rejecting ''other''"
        "Some \<lparr>validateOn = None, emitOn = None, validateDirtyOnly = Some False\<rparr>"
        "eventOn (textControl ''email'')"]
      onBlur_effect [OF entry, of "rejecting ''other''" None "eventOn (textControl ''email'')"]
    by (auto simp: freshHost_def initialField_def)
qed

section \<open>What every handler keeps\<close>

lemma keeps_refl: "keeps key id w w"
  by (simp add: keeps_def)

lemma keeps_trans: "keeps key f w w1 \<Longrightarrow> keeps key g w1 w2 \<Longrightarrow> keeps key (g \<circ> f) w w2"
  by (fastforce simp: keeps_def)

lemma keeps_trans_id: "keeps key f w w1 \<Longrightarrow> keeps key id w1 w2 \<Longrightarrow> keeps key f w w2"
  using keeps_trans [of key f w w1 id w2] by simp

lemma keeps_trans_same:
  "keeps key f w w1 \<Longrightarrow> keeps key (\<lambda>b. b) w1 w2 \<Longrightarrow> keeps key f w w2"
  using keeps_trans_id [of key f w w1 w2] by (simp only: id_def)

lemma keeps_formData: "formData w' = formData w \<Longrightarrow> keeps key id w w'"
  by (simp add: keeps_def)

lemma keeps_emitField: "keeps key id w (emitField ev input w)"
  by (simp add: keeps_formData formData_emitField)

lemma keeps_updField:
  assumes "\<And>x. (isTouched x \<longrightarrow> isTouched (f x)) \<and> (isDirty x \<longrightarrow> isDirty (f x))
              \<and> isFocused (f x) = foc (isFocused x)"
  shows "keeps key (if k = key then foc else id) w (updField k f w)"
  using assms by (auto simp: keeps_def getProp_updField)

lemma keeps_applyFieldValidation:
  "keeps key id w (snd (applyFieldValidation rules input inputOptions w))"
proof -
  obtain f where f: "f = id \<or> (\<exists>v errs. f = (\<lambda>x. x\<lparr>isValid := v, errors := errs\<rparr>))"
    and entries: "\<forall>k. getProp (formData (snd (applyFieldValidation rules input inputOptions w))) k =
        (if k = name input then map_option f (getProp (formData w) k) else getProp (formData w) k)"
    using getProp_applyFieldValidation [of rules input inputOptions w] by blast
  have "isTouched (f x) = isTouched x \<and> isDirty (f x) = isDirty x \<and> isFocused (f x) = isFocused x" for x
    using f by auto
  then show ?thesis
    using entries by (auto simp: keeps_def)
qed

lemma keeps_onFocus:
  "keeps key (if name input = key then (\<lambda>b. True) else id) w (snd (onFocus input inputOptions e w))"
proof (cases "getProp (formData w) (name input)")
  case None
  then show ?thesis
    by (auto simp: onFocus_def keeps_def)
next
  case (Some entry)
  define foc where "foc = (if name input = key then (\<lambda>b. True) else id)"
  let ?w1 = "updField (name input) (\<lambda>x. x\<lparr>isFocused := True\<rparr>) w"
  have k1: "keeps key foc w ?w1"
    unfolding foc_def by (rule keeps_updField) simp
  moreover have "keeps key id ?w1 (emitField Events_focus input ?w1)"
    by (rule keeps_emitField)
  ultimately have "keeps key foc w (emitField Events_focus input ?w1)"
    by (rule keeps_trans_id)
  with k1 have "keeps key foc w (snd (onFocus input inputOptions e w))"
    using Some by (simp add: onFocus_def Let_def)
  then show ?thesis
    by (simp only: foc_def)
qed

lemma keeps_onBlur:
  "keeps key (if name input = key then (\<lambda>b. False) else id) w
     (snd (onBlur rules input inputOptions e w))"
proof (cases "getProp (formData w) (name input)")
  case None
  then show ?thesis
    by (auto simp: onBlur_def keeps_def)
next
  case (Some entry)
  define foc where "foc = (if name input = key then (\<lambda>b. False) else id)"
  let ?w1 = "updField (name input) (\<lambda>x. x\<lparr>isFocused := False\<rparr>) w"
  let ?w3 = "updField (name input) (\<lambda>x. x\<lparr>isTouched := True\<rparr>) ?w1"
  let ?v = "applyFieldValidation rules input inputOptions ?w3"
  have k1: "keeps key foc w ?w1"
    unfolding foc_def by (rule keeps_updField) simp
  have "keeps key (if name input = key then id else id) ?w1 ?w3"
    by (rule keeps_updField) simp
  then have "keeps key id ?w1 ?w3" by simp
  with k1 have k3: "keeps key foc w ?w3"
    by (rule keeps_trans_id)
  have kv: "keeps key foc w (snd ?v)"
    using k3 keeps_applyFieldValidation by (rule keeps_trans_id)
  have emitStep: "keeps key foc w (emitField Events_blur input w')" if "keeps key foc w w'" for w'
    using that keeps_emitField by (rule keeps_trans_id)
  obtain thrown w2 where v: "?v = (thrown, w2)" by (cases ?v)
  with kv have k2: "keeps key foc w w2" by simp
  have "keeps key foc w (snd (onBlur rules input inputOptions e w))"
    using Some k1 k3 k2 v emitStep [OF k1] emitStep [OF k3] emitStep [OF k2]
    by (cases thrown) (simp_all add: onBlur_def Let_def)
  then show ?thesis
    by (simp only: foc_def)
qed

lemma keeps_onChange: "keeps key id w (snd (onChange rules input inputOptions e w))"
proof (cases "getProp (formData w) (name input)")
  case None
  then show ?thesis
    by (auto simp: onChange_def keeps_def)
next
  case (Some entry)
  let ?w1 = "updField (name input) (\<lambda>x. x\<lparr>fvalue := changedValue input e\<rparr>) w"
  let ?v = "applyFieldValidation rules input inputOptions ?w1"
  obtain thrown w2 where v: "?v = (thrown, w2)" by (cases ?v)
  let ?w3 = "updField (name input) (\<lambda>x. x\<lparr>isDirty := True\<rparr>) w2"
  have "keeps key (if name input = key then id else id) w ?w1"
    by (rule keeps_updField) simp
  then have k1: "keeps key id w ?w1" by simp
  have "keeps key id ?w1 (snd ?v)"
    by (rule keeps_applyFieldValidation)
  with k1 v have k2: "keeps key id w w2"
    using keeps_trans_id by fastforce
  have "keeps key (if name input = key then id else id) w2 ?w3"
    by (rule keeps_updField) simp
  then have "keeps key id w2 ?w3" by simp
  with k2 have k3: "keeps key id w ?w3"
    by (rule keeps_trans_id)
  have emitStep: "keeps key id w (emitField ev input w')" if "keeps key id w w'" for w' ev
    using that keeps_emitField by (rule keeps_trans_id)
  show ?thesis
    using Some v k2 k3 emitStep [OF k2] emitStep [OF k3]
    by (cases thrown) (simp_all add: onChange_def Let_def split: option.splits)
qed

lemma keeps_submitLoop_aux:
  "keeps key (\<lambda>b. b) w (snd (snd (submitLoop rules options inputs valid w)))"
proof (induction inputs arbitrary: valid w)
  case Nil
  show ?case by (simp add: keeps_def)
next
  case (Cons input rest)
  let ?v = "applyFieldValidation rules input (optionsFor options input) w"
  obtain thrown w1 where v: "?v = (thrown, w1)" by (cases ?v)
  have "keeps key id w (snd ?v)"
    by (rule keeps_applyFieldValidation)
  then have "keeps key (\<lambda>b. b) w (snd ?v)" by (simp only: id_def)
  with v have k1: "keeps key (\<lambda>b. b) w w1" by simp
  show ?case
  proof (cases thrown)
    case (Some ex)
    with v k1 show ?thesis by simp
  next
    case None
    show ?thesis
    proof (cases "getProp (formData w1) (name input)")
      case noEntry: None
      with None v k1 show ?thesis by simp
    next
      case (Some entry)
      have "keeps key (\<lambda>b. b) w1
          (snd (snd (submitLoop rules options rest (if \<not> isValid entry then False else valid) w1)))"
        by (rule Cons.IH)
      with k1 have "keeps key (\<lambda>b. b) w
          (snd (snd (submitLoop rules options rest (if \<not> isValid entry then False else valid) w1)))"
        by (rule keeps_trans_same)
      with None Some v show ?thesis by simp
    qed
  qed
qed

lemma keeps_submitLoop:
  "keeps key id w (snd (snd (submitLoop rules options inputs valid w)))"
  using keeps_submitLoop_aux [of key w rules options inputs valid] by (simp only: id_def)

lemma keeps_onSubmit: "keeps key id w (snd (snd (onSubmit rules inputs options e w)))"
proof -
  obtain thrown valid w1 where loop: "submitLoop rules options inputs True w = (thrown, valid, w1)"
    by (cases "submitLoop rules options inputs True w")
  have "keeps key id w w1"
    using keeps_submitLoop [of key w rules options inputs True] loop by simp
  moreover have "keeps key id w1 (emit Events_submit payload w1)" for payload
    by (simp add: keeps_formData emit_def)
  ultimately have "keeps key id w (emit Events_submit payload w1)" for payload
    by (rule keeps_trans_id)
  with \<open>keeps key id w w1\<close> loop show ?thesis
    by (cases thrown) (simp_all add: onSubmit_def Let_def)
qed

lemma keeps_invoke:
  "keeps key (if focusOf key c then (\<lambda>b. True) else if blurOf key c then (\<lambda>b. False) else id)
     w (invoke rules c w)"
proof (cases c)
  case (Focus input inputOptions e)
  have "keeps key (if name input = key then (\<lambda>b. True) else id) w (invoke rules c w)"
    using keeps_onFocus [of key input w inputOptions e] by (simp only: Focus invoke.simps)
  then show ?thesis
    by (simp only: Focus focusOf.simps blurOf.simps if_False)
next
  case (Blur input inputOptions e)
  have "keeps key (if name input = key then (\<lambda>b. False) else id) w (invoke rules c w)"
    using keeps_onBlur [of key input w rules inputOptions e] by (simp only: Blur invoke.simps)
  then show ?thesis
    by (simp only: Blur focusOf.simps blurOf.simps if_False)
next
  case (Change input inputOptions e)
  have "keeps key id w (invoke rules c w)"
    using keeps_onChange [of key w rules input inputOptions e] by (simp only: Change invoke.simps)
  then show ?thesis
    by (simp only: Change focusOf.simps blurOf.simps if_False)
next
  case (Submit inputs options e)
  have "keeps key id w (invoke rules c w)"
    using keeps_onSubmit [of key w rules inputs options e] by (simp only: Submit invoke.simps)
  then show ?thesis
    by (simp only: Submit focusOf.simps blurOf.simps if_False)
qed

lemma run_snoc: "run rules (calls @ [c]) w = invoke rules c (run rules calls w)"
  by (simp add: run_def)

section \<open>The flags over sequences of handler calls\<close>

text \<open>
  C5. Over every sequence of handler calls (focus, blur, change, submit, of any fields) on
  the same form data, a field whose \<^verbatim>\<open>isTouched\<close> is true keeps it true, and a field
  whose \<^verbatim>\<open>isDirty\<close> is true keeps it true.
\<close>

theorem touched_dirty_monotonic:
  assumes "getProp (formData w) key = Some entry"
  shows "\<exists>entry'. getProp (formData (run rules calls w)) key = Some entry'
           \<and> (isTouched entry \<longrightarrow> isTouched entry')
           \<and> (isDirty entry \<longrightarrow> isDirty entry')"
  using assms
proof (induction calls rule: rev_induct)
  case Nil
  then show ?case by (simp add: run_def)
next
  case (snoc c calls)
  then obtain entry1 where entry1: "getProp (formData (run rules calls w)) key = Some entry1"
    and flags1: "isTouched entry \<longrightarrow> isTouched entry1" "isDirty entry \<longrightarrow> isDirty entry1"
    by blast
  obtain foc where "keeps key foc (run rules calls w) (invoke rules c (run rules calls w))"
    using keeps_invoke by blast
  with entry1 obtain entry2 where
    "getProp (formData (invoke rules c (run rules calls w))) key = Some entry2"
    "isTouched entry1 \<longrightarrow> isTouched entry2" "isDirty entry1 \<longrightarrow> isDirty entry2"
    unfolding keeps_def by blast
  with flags1 show ?case
    by (auto simp: run_snoc)
qed

theorem touched_dirty_monotonic_witness:
  "getProp
     (formData (run (rejecting ''other'')
        [Blur (textControl ''email'') None (eventOn (textControl ''email'')),
         Change (textControl ''email'') None (eventOn (textControl ''email''))]
        (world (freshHost [textControl ''email'']))))
     ''email''
   = Some \<lparr>fvalue = StringValue [], isValid = True, isTouched = True, isFocused = False,
            isDirty = True, errors = [], inputType = Some ''text''\<rparr>
   \<and> (\<exists>entry'.
        getProp
          (formData (run (rejecting ''other'')
             [Focus (textControl ''email'') None (eventOn (textControl ''email'')),
              Submit [textControl ''email''] None (eventOn (textControl ''email'')),
              Blur (textControl ''email'') None (eventOn (textControl ''email''))]
             (run (rejecting ''other'')
                [Blur (textControl ''email'') None (eventOn (textControl ''email'')),
                 Change (textControl ''email'') None (eventOn (textControl ''email''))]
                (world (freshHost [textControl ''email''])))))
          ''email'' = Some entry'
        \<and> isTouched entry' \<and> isDirty entry')"
proof -
  have entry: "getProp
     (formData (run (rejecting ''other'')
        [Blur (textControl ''email'') None (eventOn (textControl ''email'')),
         Change (textControl ''email'') None (eventOn (textControl ''email''))]
        (world (freshHost [textControl ''email'']))))
     ''email''
   = Some \<lparr>fvalue = StringValue [], isValid = True, isTouched = True, isFocused = False,
            isDirty = True, errors = [], inputType = Some ''text''\<rparr>"
    by (simp add: run_def sample_defs build_defs handler_defs)
  show ?thesis
    using entry
      touched_dirty_monotonic [OF entry, of "rejecting ''other''"
        "[Focus (textControl ''email'') None (eventOn (textControl ''email'')),
          Submit [textControl ''email''] None (eventOn (textControl ''email'')),
          Blur (textControl ''email'') None (eventOn (textControl ''email''))]"]
    by simp
qed

text \<open>
  C9. Starting from a field that is not focused, after every sequence of handler calls
  the field's \<^verbatim>\<open>isFocused\<close> is true exactly when there is a focus call for the field
  with no later blur call for the field. Every entry made by \<^verbatim>\<open>createFormData\<close> starts
  not focused, and the focus handler calls no validation.
\<close>

theorem focus_window:
  assumes "getProp (formData w) key = Some entry" and "\<not> isFocused entry"
  shows "(\<exists>entry'. getProp (formData (run rules calls w)) key = Some entry'
            \<and> (isFocused entry' \<longleftrightarrow>
                 (\<exists>i < length calls. focusOf key (calls ! i)
                    \<and> (\<forall>j. i < j \<and> j < length calls \<longrightarrow> \<not> blurOf key (calls ! j)))))
       \<and> (\<forall>(k, x) \<in> set (createFormData inputs). \<not> isFocused x)
       \<and> validated (snd (onFocus input inputOptions e w0)) = validated w0"
proof -
  let ?window = "\<lambda>calls. \<exists>i < length calls. focusOf key (calls ! i)
                    \<and> (\<forall>j. i < j \<and> j < length calls \<longrightarrow> \<not> blurOf key (calls ! j))"
  have window_snoc: "?window (calls @ [c]) \<longleftrightarrow>
      (if focusOf key c then True else if blurOf key c then False else ?window calls)" for calls c
  proof (cases "focusOf key c")
    case True
    then have "length calls < length (calls @ [c]) \<and> focusOf key ((calls @ [c]) ! length calls)
        \<and> (\<forall>j. length calls < j \<and> j < length (calls @ [c]) \<longrightarrow> \<not> blurOf key ((calls @ [c]) ! j))"
      by auto
    then have "?window (calls @ [c])" by blast
    with True show ?thesis by simp
  next
    case notFocus: False
    show ?thesis
    proof (cases "blurOf key c")
      case True
      have "\<not> ?window (calls @ [c])"
      proof
        assume "?window (calls @ [c])"
        then obtain i where i: "i < length (calls @ [c])" "focusOf key ((calls @ [c]) ! i)"
          and later: "\<forall>j. i < j \<and> j < length (calls @ [c]) \<longrightarrow> \<not> blurOf key ((calls @ [c]) ! j)"
          by blast
        from i notFocus have "i < length calls"
          by (cases "i = length calls") (auto simp: nth_append)
        with later have "\<not> blurOf key ((calls @ [c]) ! length calls)"
          by (metis length_append_singleton lessI)
        with True show False by simp
      qed
      with notFocus True show ?thesis by simp
    next
      case False
      have "?window (calls @ [c]) \<longleftrightarrow> ?window calls"
      proof
        assume "?window (calls @ [c])"
        then obtain i where i: "i < length (calls @ [c])" "focusOf key ((calls @ [c]) ! i)"
          and later: "\<forall>j. i < j \<and> j < length (calls @ [c]) \<longrightarrow> \<not> blurOf key ((calls @ [c]) ! j)"
          by blast
        from i notFocus have small: "i < length calls"
          by (cases "i = length calls") (auto simp: nth_append)
        with i have "focusOf key (calls ! i)" by (simp add: nth_append)
        moreover have "\<forall>j. i < j \<and> j < length calls \<longrightarrow> \<not> blurOf key (calls ! j)"
        proof (intro allI impI)
          fix j assume j: "i < j \<and> j < length calls"
          with later have "\<not> blurOf key ((calls @ [c]) ! j)" by simp
          with j show "\<not> blurOf key (calls ! j)" by (simp add: nth_append)
        qed
        ultimately show "?window calls" using small by blast
      next
        assume "?window calls"
        then obtain i where i: "i < length calls" "focusOf key (calls ! i)"
          and later: "\<forall>j. i < j \<and> j < length calls \<longrightarrow> \<not> blurOf key (calls ! j)"
          by blast
        have "\<forall>j. i < j \<and> j < length (calls @ [c]) \<longrightarrow> \<not> blurOf key ((calls @ [c]) ! j)"
        proof (intro allI impI)
          fix j assume j: "i < j \<and> j < length (calls @ [c])"
          show "\<not> blurOf key ((calls @ [c]) ! j)"
            using j later False by (cases "j = length calls") (auto simp: nth_append)
        qed
        moreover from i have "i < length (calls @ [c])" "focusOf key ((calls @ [c]) ! i)"
          by (simp_all add: nth_append)
        ultimately show "?window (calls @ [c])" by blast
      qed
      with notFocus False show ?thesis by simp
    qed
  qed
  have main: "\<exists>entry'. getProp (formData (run rules calls w)) key = Some entry'
            \<and> (isFocused entry' \<longleftrightarrow> ?window calls)"
  proof (induction calls rule: rev_induct)
    case Nil
    with assms show ?case by (simp add: run_def)
  next
    case (snoc c calls)
    then obtain entry1 where entry1: "getProp (formData (run rules calls w)) key = Some entry1"
      and focused1: "isFocused entry1 \<longleftrightarrow> ?window calls"
      by blast
    define foc where
      "foc = (if focusOf key c then (\<lambda>b. True) else if blurOf key c then (\<lambda>b. False) else id)"
    have "keeps key foc (run rules calls w) (invoke rules c (run rules calls w))"
      unfolding foc_def by (rule keeps_invoke)
    with entry1 obtain entry2 where
      entry2: "getProp (formData (invoke rules c (run rules calls w))) key = Some entry2"
      and focused2: "isFocused entry2 = foc (isFocused entry1)"
      unfolding keeps_def by blast
    have "isFocused entry2 \<longleftrightarrow> ?window (calls @ [c])"
      unfolding window_snoc using focused1 focused2 by (simp add: foc_def)
    with entry2 show ?case
      by (simp add: run_snoc)
  qed
  have initial: "\<forall>(k, x) \<in> set (createFormData inputs). \<not> isFocused x"
    using createFormData_initial by blast
  have noValidation: "validated (snd (onFocus input inputOptions e w0)) = validated w0"
    by (simp add: onFocus_def Let_def world_simps split: option.splits)
  from main initial noValidation show ?thesis by blast
qed

theorem focus_window_witness:
  "getProp (formData (world (freshHost [textControl ''email''])))
     ''email'' = Some (initialField [] (textControl ''email''))
   \<and> \<not> isFocused (initialField [] (textControl ''email''))
   \<and> (\<exists>entry'.
        getProp
          (formData (run (rejecting ''other'')
             [Focus (textControl ''email'') None (eventOn (textControl ''email'')),
              Blur (textControl ''email'') None (eventOn (textControl ''email'')),
              Focus (textControl ''email'') None (eventOn (textControl ''email''))]
             (world (freshHost [textControl ''email'']))))
          ''email'' = Some entry'
        \<and> isFocused entry')
   \<and> (\<exists>entry'.
        getProp
          (formData (run (rejecting ''other'')
             [Focus (textControl ''email'') None (eventOn (textControl ''email'')),
              Blur (textControl ''email'') None (eventOn (textControl ''email''))]
             (world (freshHost [textControl ''email'']))))
          ''email'' = Some entry'
        \<and> \<not> isFocused entry')"
proof -
  let ?c = "textControl ''email''"
  let ?focus = "Focus ?c None (eventOn ?c)" and ?blur = "Blur ?c None (eventOn ?c)"
  have entry: "getProp (formData (world (freshHost [?c]))) ''email'' = Some (initialField [] ?c)"
    by (simp add: sample_defs build_defs getProp_def)
  have initial: "\<not> isFocused (initialField [] ?c)"
    by (simp add: initialField_def)
  have open_window: "\<exists>i < length [?focus, ?blur, ?focus].
      focusOf ''email'' ([?focus, ?blur, ?focus] ! i)
      \<and> (\<forall>j. i < j \<and> j < length [?focus, ?blur, ?focus]
            \<longrightarrow> \<not> blurOf ''email'' ([?focus, ?blur, ?focus] ! j))"
    by (rule exI [of _ 2]) (simp add: textControl_def)
  have closed_window: "\<not> (\<exists>i < length [?focus, ?blur].
      focusOf ''email'' ([?focus, ?blur] ! i)
      \<and> (\<forall>j. i < j \<and> j < length [?focus, ?blur]
            \<longrightarrow> \<not> blurOf ''email'' ([?focus, ?blur] ! j)))"
    by (auto simp: textControl_def less_Suc_eq numeral_2_eq_2)
  show ?thesis
    using entry initial open_window closed_window
      focus_window [OF entry initial, of "rejecting ''other''" "[?focus, ?blur, ?focus]"]
      focus_window [OF entry initial, of "rejecting ''other''" "[?focus, ?blur]"]
    by blast
qed

section \<open>The submit handler\<close>

lemma submitLoop_append:
  "submitLoop rules options (xs @ ys) valid w =
     (case submitLoop rules options xs valid w of
        (Some ex, v1, w1) \<Rightarrow> (Some ex, v1, w1)
      | (None, v1, w1) \<Rightarrow> submitLoop rules options ys v1 w1)"
proof (induction xs arbitrary: valid w)
  case Nil
  show ?case by simp
next
  case (Cons x xs)
  show ?case
    by (simp add: Cons.IH split: prod.splits option.splits)
qed

lemma emitted_submitLoop:
  "emitted (snd (snd (submitLoop rules options inputs valid w))) = emitted w"
proof (induction inputs arbitrary: valid w)
  case Nil
  show ?case by simp
next
  case (Cons x xs)
  obtain thrown w1 where v: "applyFieldValidation rules x (optionsFor options x) w = (thrown, w1)"
    by (cases "applyFieldValidation rules x (optionsFor options x) w")
  then have "emitted w1 = emitted w"
    using emitted_applyFieldValidation [of rules x "optionsFor options x" w] by simp
  with v show ?case
    by (simp add: Cons.IH split: option.splits)
qed

lemma keys_submitLoop:
  "map fst (formData (snd (snd (submitLoop rules options inputs valid w)))) = map fst (formData w)"
proof (induction inputs arbitrary: valid w)
  case Nil
  show ?case by simp
next
  case (Cons x xs)
  obtain thrown w1 where v: "applyFieldValidation rules x (optionsFor options x) w = (thrown, w1)"
    by (cases "applyFieldValidation rules x (optionsFor options x) w")
  then have "map fst (formData w1) = map fst (formData w)"
    using keys_applyFieldValidation [of rules x "optionsFor options x" w] by simp
  with v show ?case
    by (simp add: Cons.IH split: option.splits)
qed

lemma validated_submitLoop:
  "submitLoop rules options inputs valid w = (None, v1, w1) \<Longrightarrow>
     validated w1 = validated w @ inputs"
proof (induction inputs arbitrary: valid w)
  case Nil
  then show ?case by simp
next
  case (Cons x xs)
  obtain thrown w2 where v: "applyFieldValidation rules x (optionsFor options x) w = (thrown, w2)"
    by (cases "applyFieldValidation rules x (optionsFor options x) w")
  then have logged: "validated w2 = validated w @ [x]"
    using validated_applyFieldValidation [of rules x "optionsFor options x" w] by simp
  from Cons.prems v obtain entry where
    "thrown = None" "getProp (formData w2) (name x) = Some entry"
    "submitLoop rules options xs (if \<not> isValid entry then False else valid) w2 = (None, v1, w1)"
    by (auto split: option.splits)
  then show ?case
    using Cons.IH logged by fastforce
qed

text \<open>The entries of the names that the loop does not visit stay as they are.\<close>

lemma submitLoop_other:
  "key \<notin> name ` set inputs \<Longrightarrow>
     getProp (formData (snd (snd (submitLoop rules options inputs valid w)))) key =
     getProp (formData w) key"
proof (induction inputs arbitrary: valid w)
  case Nil
  show ?case by simp
next
  case (Cons x xs)
  obtain thrown w1 where v: "applyFieldValidation rules x (optionsFor options x) w = (thrown, w1)"
    by (cases "applyFieldValidation rules x (optionsFor options x) w")
  from Cons.prems have "key \<noteq> name x" and rest: "key \<notin> name ` set xs" by auto
  then have "getProp (formData (snd (applyFieldValidation rules x (optionsFor options x) w))) key
      = getProp (formData w) key"
    using getProp_applyFieldValidation [of rules x "optionsFor options x" w] by auto
  with v have "getProp (formData w1) key = getProp (formData w) key" by simp
  with v show ?case
    by (simp add: Cons.IH [OF rest] split: option.splits)
qed

text \<open>One more control at the end of a loop that has completed.\<close>

lemma submitLoop_snoc:
  assumes "submitLoop rules options (xs @ [x]) valid w = (None, v2, w2)"
  shows "\<exists>v1 w1 entry.
           submitLoop rules options xs valid w = (None, v1, w1)
         \<and> applyFieldValidation rules x (optionsFor options x) w1 = (None, w2)
         \<and> getProp (formData w2) (name x) = Some entry
         \<and> v2 = (if \<not> isValid entry then False else v1)"
proof -
  obtain thrown v1 w1 where xs: "submitLoop rules options xs valid w = (thrown, v1, w1)"
    by (cases "submitLoop rules options xs valid w")
  with assms have none: "thrown = None"
    by (cases thrown) (simp_all add: submitLoop_append)
  with assms xs have last: "submitLoop rules options [x] v1 w1 = (None, v2, w2)"
    by (simp add: submitLoop_append)
  obtain thrown' w' where v: "applyFieldValidation rules x (optionsFor options x) w1 = (thrown', w')"
    by (cases "applyFieldValidation rules x (optionsFor options x) w1")
  with last show ?thesis
    using xs none by (auto split: option.splits)
qed

lemma submitLoop_prefix:
  assumes "submitLoop rules options (xs @ ys) valid w = (None, v2, w2)"
  shows "\<exists>v1 w1. submitLoop rules options xs valid w = (None, v1, w1)"
proof -
  obtain thrown v1 w1 where xs: "submitLoop rules options xs valid w = (thrown, v1, w1)"
    by (cases "submitLoop rules options xs valid w")
  with assms have "thrown = None"
    by (cases thrown) (simp_all add: submitLoop_append)
  with xs show ?thesis by simp
qed

text \<open>The flag that a completed loop returns.\<close>

lemma submitLoop_valid:
  assumes "submitLoop rules options inputs valid w = (None, v1, w1)"
  shows "v1 \<longleftrightarrow> valid \<and>
     (\<forall>k < length inputs. \<exists>entry.
        getProp (formData (snd (snd (submitLoop rules options (take (Suc k) inputs) valid w))))
          (name (inputs ! k)) = Some entry \<and> isValid entry)"
  using assms
proof (induction inputs arbitrary: v1 w1 rule: rev_induct)
  case Nil
  then show ?case by simp
next
  case (snoc x xs)
  from submitLoop_snoc [OF snoc.prems] obtain v0 w0 entry where
    xs: "submitLoop rules options xs valid w = (None, v0, w0)"
    and x: "applyFieldValidation rules x (optionsFor options x) w0 = (None, w1)"
    and entry: "getProp (formData w1) (name x) = Some entry"
    and v1: "v1 = (if \<not> isValid entry then False else v0)"
    by blast
  let ?read = "\<lambda>inputs k. \<exists>entry.
        getProp (formData (snd (snd (submitLoop rules options (take (Suc k) inputs) valid w))))
          (name (inputs ! k)) = Some entry \<and> isValid entry"
  have IH: "v0 \<longleftrightarrow> valid \<and> (\<forall>k < length xs. ?read xs k)"
    using snoc.IH [OF xs] .
  have early: "?read (xs @ [x]) k \<longleftrightarrow> ?read xs k" if "k < length xs" for k
    using that by (simp add: nth_append)
  have last: "?read (xs @ [x]) (length xs) \<longleftrightarrow> isValid entry"
    using snoc.prems entry by simp
  have "(\<forall>k < length (xs @ [x]). ?read (xs @ [x]) k) \<longleftrightarrow>
      (\<forall>k < length xs. ?read xs k) \<and> isValid entry"
    using early last by (auto simp: less_Suc_eq)
  with IH v1 show ?case by auto
qed

lemma submitLoop_final_entry:
  assumes loop: "submitLoop rules options inputs valid w = (None, v1, w1)"
    and names: "distinct (map name inputs)"
    and k: "k < length inputs"
  shows "getProp (formData (snd (snd (submitLoop rules options (take (Suc k) inputs) valid w))))
           (name (inputs ! k)) =
         getProp (formData w1) (name (inputs ! k))"
proof -
  let ?pre = "take (Suc k) inputs" and ?post = "drop (Suc k) inputs"
  have whole: "inputs = ?pre @ ?post" by simp
  with loop have "submitLoop rules options (?pre @ ?post) valid w = (None, v1, w1)" by simp
  from submitLoop_prefix [OF this] obtain v0 w0 where
    pre: "submitLoop rules options ?pre valid w = (None, v0, w0)" by blast
  have "submitLoop rules options (?pre @ ?post) valid w = submitLoop rules options ?post v0 w0"
    using pre by (simp only: submitLoop_append) simp
  with loop have post: "submitLoop rules options ?post v0 w0 = (None, v1, w1)" by simp
  have "distinct (map name ?pre @ map name ?post)"
    using names by (metis append_take_drop_id map_append)
  moreover have "name (inputs ! k) \<in> set (map name ?pre)"
    using k by (metis in_set_conv_nth length_map length_take lessI min_less_iff_conj
        nth_map nth_take)
  ultimately have "name (inputs ! k) \<notin> name ` set ?post"
    by auto
  then have "getProp (formData (snd (snd (submitLoop rules options ?post v0 w0))))
      (name (inputs ! k)) = getProp (formData w0) (name (inputs ! k))"
    by (rule submitLoop_other)
  with pre post show ?thesis by simp
qed

lemma submitLoop_valid_distinct:
  assumes loop: "submitLoop rules options inputs valid w = (None, v1, w1)"
    and names: "distinct (map name inputs)"
  shows "v1 \<longleftrightarrow> valid \<and>
     (\<forall>input \<in> set inputs. \<exists>entry.
        getProp (formData w1) (name input) = Some entry \<and> isValid entry)"
proof -
  have "(\<forall>k < length inputs. \<exists>entry.
        getProp (formData (snd (snd (submitLoop rules options (take (Suc k) inputs) valid w))))
          (name (inputs ! k)) = Some entry \<and> isValid entry) \<longleftrightarrow>
      (\<forall>k < length inputs. \<exists>entry.
        getProp (formData w1) (name (inputs ! k)) = Some entry \<and> isValid entry)"
    using submitLoop_final_entry [OF loop names] by simp
  also have "\<dots> \<longleftrightarrow> (\<forall>input \<in> set inputs. \<exists>entry.
        getProp (formData w1) (name input) = Some entry \<and> isValid entry)"
    by (metis in_set_conv_nth)
  finally show ?thesis
    using submitLoop_valid [OF loop] by simp
qed

text \<open>
  C1. Every call of the submit handler suppresses the default action of the event. A call
  that completes has called validation for every control, in declaration order, whatever
  the validity of the earlier ones, and has published exactly one submit event; its payload
  is the whole form data, with every entry, together with the aggregate validity. The
  aggregate is the conjunction, over the controls, of the \<^verbatim>\<open>isValid\<close> that the control's
  entry has right after the control's validation; when the names are distinct this is the
  conjunction of \<^verbatim>\<open>isValid\<close> over the entries of the controls in the published form data.
\<close>

theorem onSubmit_effect:
  "defaultPrevented (fst (snd (onSubmit rules inputs options e w)))
   \<and> (fst (onSubmit rules inputs options e w) = None \<longrightarrow>
        validated (snd (snd (onSubmit rules inputs options e w))) = validated w @ inputs
      \<and> map fst (formData (snd (snd (onSubmit rules inputs options e w)))) = map fst (formData w)
      \<and> (\<exists>valid.
            emitted (snd (snd (onSubmit rules inputs options e w))) =
              emitted w @
                [(Events_submit,
                  SubmitPayload (formData (snd (snd (onSubmit rules inputs options e w)))) valid)]
          \<and> (valid \<longleftrightarrow>
               (\<forall>k < length inputs. \<exists>entry.
                  getProp
                    (formData (snd (snd (submitLoop rules options (take (Suc k) inputs) True w))))
                    (name (inputs ! k)) = Some entry
                  \<and> isValid entry))
          \<and> (distinct (map name inputs) \<longrightarrow>
               (valid \<longleftrightarrow>
                 (\<forall>input \<in> set inputs. \<exists>entry.
                    getProp (formData (snd (snd (onSubmit rules inputs options e w))))
                      (name input) = Some entry
                    \<and> isValid entry)))))"
proof -
  obtain thrown valid w1 where loop: "submitLoop rules options inputs True w = (thrown, valid, w1)"
    by (cases "submitLoop rules options inputs True w")
  have prevented: "defaultPrevented (fst (snd (onSubmit rules inputs options e w)))"
    using loop by (cases thrown) (simp_all add: onSubmit_def Let_def preventDefault_def)
  show ?thesis
  proof (cases thrown)
    case (Some ex)
    with loop have "fst (onSubmit rules inputs options e w) \<noteq> None"
      by (simp add: onSubmit_def Let_def)
    with prevented show ?thesis by blast
  next
    case None
    with loop have completed: "submitLoop rules options inputs True w = (None, valid, w1)" by simp
    let ?r = "onSubmit rules inputs options e w"
    have outcome: "fst ?r = None"
      using completed by (simp add: onSubmit_def Let_def)
    have result: "snd (snd ?r) = emit Events_submit (SubmitPayload (formData w1) valid) w1"
      using completed by (simp add: onSubmit_def Let_def)
    have fd: "formData (snd (snd ?r)) = formData w1"
      and logged: "validated (snd (snd ?r)) = validated w1"
      and out: "emitted (snd (snd ?r)) =
          emitted w1 @ [(Events_submit, SubmitPayload (formData w1) valid)]"
      unfolding result by (simp_all add: emit_def)
    have c1: "validated (snd (snd ?r)) = validated w @ inputs"
      unfolding logged using completed by (rule validated_submitLoop)
    have c2: "map fst (formData (snd (snd ?r))) = map fst (formData w)"
      unfolding fd using keys_submitLoop [of rules options inputs True w] completed by simp
    have c3: "emitted (snd (snd ?r)) =
        emitted w @ [(Events_submit, SubmitPayload (formData (snd (snd ?r))) valid)]"
      unfolding out fd using emitted_submitLoop [of rules options inputs True w] completed by simp
    have c4: "valid \<longleftrightarrow>
        (\<forall>k < length inputs. \<exists>entry.
           getProp (formData (snd (snd (submitLoop rules options (take (Suc k) inputs) True w))))
             (name (inputs ! k)) = Some entry \<and> isValid entry)"
      using submitLoop_valid [OF completed] by simp
    have c5: "valid \<longleftrightarrow>
        (\<forall>input \<in> set inputs. \<exists>entry.
           getProp (formData (snd (snd ?r))) (name input) = Some entry \<and> isValid entry)"
      if "distinct (map name inputs)"
      unfolding fd using submitLoop_valid_distinct [OF completed that] by simp
    from c3 c4 c5 have "\<exists>valid.
        emitted (snd (snd ?r)) =
          emitted w @ [(Events_submit, SubmitPayload (formData (snd (snd ?r))) valid)]
      \<and> (valid \<longleftrightarrow>
           (\<forall>k < length inputs. \<exists>entry.
              getProp (formData (snd (snd (submitLoop rules options (take (Suc k) inputs) True w))))
                (name (inputs ! k)) = Some entry \<and> isValid entry))
      \<and> (distinct (map name inputs) \<longrightarrow>
           (valid \<longleftrightarrow>
             (\<forall>input \<in> set inputs. \<exists>entry.
                getProp (formData (snd (snd ?r))) (name input) = Some entry \<and> isValid entry)))"
      by blast
    with prevented c1 c2 show ?thesis
      by blast
  qed
qed

theorem onSubmit_effect_witness:
  "fst (onSubmit (rejecting ''b'') [textControl ''a'', textControl ''b'', textControl ''c''] None
          (eventOn (textControl ''form''))
          (world (freshHost [textControl ''a'', textControl ''b'', textControl ''c'']))) = None
   \<and> distinct (map name [textControl ''a'', textControl ''b'', textControl ''c''])
   \<and> (\<exists>payload.
        emitted (snd (snd
          (onSubmit (rejecting ''b'') [textControl ''a'', textControl ''b'', textControl ''c''] None
             (eventOn (textControl ''form''))
             (world (freshHost [textControl ''a'', textControl ''b'', textControl ''c''])))))
        = [(Events_submit, SubmitPayload payload False)]
        \<and> map fst payload = [''a'', ''b'', ''c''])"
proof -
  let ?inputs = "[textControl ''a'', textControl ''b'', textControl ''c'']"
  let ?w = "world (freshHost ?inputs)"
  let ?r = "onSubmit (rejecting ''b'') ?inputs None (eventOn (textControl ''form'')) ?w"
  have completes: "fst ?r = None"
    by (simp add: sample_defs build_defs handler_defs)
  have names: "distinct (map name ?inputs)"
    by (simp add: textControl_def)
  have before: "emitted ?w = []" "map fst (formData ?w) = [''a'', ''b'', ''c'']"
    by (simp_all add: sample_defs build_defs)
  have b: "getProp (formData (snd (snd ?r))) (name (textControl ''b'')) =
      Some \<lparr>fvalue = StringValue [], isValid = False, isTouched = False, isFocused = False,
             isDirty = False, errors = [''invalid''], inputType = Some ''text''\<rparr>"
    by (simp add: sample_defs build_defs handler_defs)
  from onSubmit_effect [of "rejecting ''b''" ?inputs None "eventOn (textControl ''form'')" ?w]
    completes names
  obtain valid where
    out: "emitted (snd (snd ?r)) =
        emitted ?w @ [(Events_submit, SubmitPayload (formData (snd (snd ?r))) valid)]"
    and agg: "valid \<longleftrightarrow> (\<forall>input \<in> set ?inputs. \<exists>entry.
        getProp (formData (snd (snd ?r))) (name input) = Some entry \<and> isValid entry)"
    and keys: "map fst (formData (snd (snd ?r))) = map fst (formData ?w)"
    by blast
  from agg b have "\<not> valid"
    by auto
  with out keys before completes names show ?thesis
    by simp
qed

section \<open>Publication\<close>

lemma emitAllowed_iff:
  "emitAllowed inputOptions ev \<longleftrightarrow>
     (\<forall>opts names. inputOptions = Some opts \<and> emitOn opts = Some names \<longrightarrow> ev \<in> set names)"
  by (auto simp: emitAllowed_def split: option.splits)

lemma emitted_onFocus:
  "emitted (snd (onFocus input inputOptions e w)) =
     emitted w @
       (if fst (onFocus input inputOptions e w) = None \<and> emitAllowed inputOptions Events_focus
        then [(Events_focus,
               FieldPayload (getProp (formData (snd (onFocus input inputOptions e w))) (name input)))]
        else [])"
  by (simp add: onFocus_def Let_def world_simps split: option.splits)

lemma emitted_onBlur:
  "emitted (snd (onBlur rules input inputOptions e w)) =
     emitted w @
       (if fst (onBlur rules input inputOptions e w) = None \<and> emitAllowed inputOptions Events_blur
        then [(Events_blur,
               FieldPayload (getProp (formData (snd (onBlur rules input inputOptions e w)))
                 (name input)))]
        else [])"
proof (cases "getProp (formData w) (name input)")
  case None
  then show ?thesis by (simp add: onBlur_def)
next
  case (Some entry)
  let ?w3 = "updField (name input) (\<lambda>x. x\<lparr>isTouched := True\<rparr>)
               (updField (name input) (\<lambda>x. x\<lparr>isFocused := False\<rparr>) w)"
  obtain thrown w2 where v: "applyFieldValidation rules input inputOptions ?w3 = (thrown, w2)"
    by (cases "applyFieldValidation rules input inputOptions ?w3")
  then have "emitted w2 = emitted w"
    using emitted_applyFieldValidation [of rules input inputOptions ?w3]
    by (simp add: world_simps)
  with Some v show ?thesis
    by (cases thrown) (simp_all add: onBlur_def Let_def world_simps)
qed

lemma emitted_onChange:
  "emitted (snd (onChange rules input inputOptions e w)) =
     emitted w @
       (if fst (onChange rules input inputOptions e w) = None
           \<and> emitAllowed inputOptions (selectedEvent inputOptions)
        then [(selectedEvent inputOptions,
               FieldPayload (getProp (formData (snd (onChange rules input inputOptions e w)))
                 (name input)))]
        else [])"
proof (cases "getProp (formData w) (name input)")
  case None
  then show ?thesis by (simp add: onChange_def)
next
  case (Some entry)
  let ?w1 = "updField (name input) (\<lambda>x. x\<lparr>fvalue := changedValue input e\<rparr>) w"
  obtain thrown w2 where v: "applyFieldValidation rules input inputOptions ?w1 = (thrown, w2)"
    by (cases "applyFieldValidation rules input inputOptions ?w1")
  then have "emitted w2 = emitted w"
    using emitted_applyFieldValidation [of rules input inputOptions ?w1]
    by (simp add: world_simps)
  with Some v show ?thesis
    by (cases thrown) (simp_all add: onChange_def Let_def world_simps split: option.splits)
qed

lemma emit_gating_handlers:
  "emitted (snd (onFocus input inputOptions e w)) =
     emitted w @
       (if fst (onFocus input inputOptions e w) = None
           \<and> (\<forall>opts names. inputOptions = Some opts \<and> emitOn opts = Some names
                 \<longrightarrow> Events_focus \<in> set names)
        then [(Events_focus,
               FieldPayload (getProp (formData (snd (onFocus input inputOptions e w))) (name input)))]
        else [])
   \<and> emitted (snd (onBlur rules input inputOptions e w)) =
     emitted w @
       (if fst (onBlur rules input inputOptions e w) = None
           \<and> (\<forall>opts names. inputOptions = Some opts \<and> emitOn opts = Some names
                 \<longrightarrow> Events_blur \<in> set names)
        then [(Events_blur,
               FieldPayload (getProp (formData (snd (onBlur rules input inputOptions e w)))
                 (name input)))]
        else [])
   \<and> emitted (snd (onChange rules input inputOptions e w)) =
     emitted w @
       (if fst (onChange rules input inputOptions e w) = None
           \<and> (\<forall>opts names. inputOptions = Some opts \<and> emitOn opts = Some names
                 \<longrightarrow> selectedEvent inputOptions \<in> set names)
        then [(selectedEvent inputOptions,
               FieldPayload (getProp (formData (snd (onChange rules input inputOptions e w)))
                 (name input)))]
        else [])
   \<and> (\<forall>opts. inputOptions = Some opts \<and> emitOn opts = Some [Events_blur] \<longrightarrow>
         emitted (snd (onFocus input inputOptions e w)) = emitted w
       \<and> (selectedEvent inputOptions \<noteq> Events_blur \<longrightarrow>
             emitted (snd (onChange rules input inputOptions e w)) = emitted w)
       \<and> (fst (onBlur rules input inputOptions e w) = None \<longrightarrow>
             emitted (snd (onBlur rules input inputOptions e w)) =
               emitted w @
                 [(Events_blur,
                   FieldPayload (getProp (formData (snd (onBlur rules input inputOptions e w)))
                     (name input)))]))
   \<and> (\<forall>opts. inputOptions = Some opts \<and> emitOn opts = Some [] \<longrightarrow>
         emitted (snd (onFocus input inputOptions e w)) = emitted w
       \<and> emitted (snd (onBlur rules input inputOptions e w)) = emitted w
       \<and> emitted (snd (onChange rules input inputOptions e w)) = emitted w)"
proof -
  note gate = emitAllowed_iff [symmetric]
  have focus: "emitted (snd (onFocus input inputOptions e w)) =
     emitted w @
       (if fst (onFocus input inputOptions e w) = None
           \<and> (\<forall>opts names. inputOptions = Some opts \<and> emitOn opts = Some names
                 \<longrightarrow> Events_focus \<in> set names)
        then [(Events_focus,
               FieldPayload (getProp (formData (snd (onFocus input inputOptions e w))) (name input)))]
        else [])"
    unfolding gate by (rule emitted_onFocus)
  have blur: "emitted (snd (onBlur rules input inputOptions e w)) =
     emitted w @
       (if fst (onBlur rules input inputOptions e w) = None
           \<and> (\<forall>opts names. inputOptions = Some opts \<and> emitOn opts = Some names
                 \<longrightarrow> Events_blur \<in> set names)
        then [(Events_blur,
               FieldPayload (getProp (formData (snd (onBlur rules input inputOptions e w)))
                 (name input)))]
        else [])"
    unfolding gate by (rule emitted_onBlur)
  have change: "emitted (snd (onChange rules input inputOptions e w)) =
     emitted w @
       (if fst (onChange rules input inputOptions e w) = None
           \<and> (\<forall>opts names. inputOptions = Some opts \<and> emitOn opts = Some names
                 \<longrightarrow> selectedEvent inputOptions \<in> set names)
        then [(selectedEvent inputOptions,
               FieldPayload (getProp (formData (snd (onChange rules input inputOptions e w)))
                 (name input)))]
        else [])"
    unfolding gate by (rule emitted_onChange)
  have differ: "Events_focus \<noteq> Events_blur"
    by (simp add: Events_focus_def Events_blur_def)
  have onlyBlur: "emitted (snd (onFocus input inputOptions e w)) = emitted w
       \<and> (selectedEvent inputOptions \<noteq> Events_blur \<longrightarrow>
             emitted (snd (onChange rules input inputOptions e w)) = emitted w)
       \<and> (fst (onBlur rules input inputOptions e w) = None \<longrightarrow>
             emitted (snd (onBlur rules input inputOptions e w)) =
               emitted w @
                 [(Events_blur,
                   FieldPayload (getProp (formData (snd (onBlur rules input inputOptions e w)))
                     (name input)))])"
    if "inputOptions = Some opts \<and> emitOn opts = Some [Events_blur]" for opts
    using that differ
      emitted_onFocus [of input inputOptions e w]
      emitted_onBlur [of rules input inputOptions e w]
      emitted_onChange [of rules input inputOptions e w]
    by (simp add: emitAllowed_def)
  have none: "emitted (snd (onFocus input inputOptions e w)) = emitted w
       \<and> emitted (snd (onBlur rules input inputOptions e w)) = emitted w
       \<and> emitted (snd (onChange rules input inputOptions e w)) = emitted w"
    if "inputOptions = Some opts \<and> emitOn opts = Some []" for opts
    using that
      emitted_onFocus [of input inputOptions e w]
      emitted_onBlur [of rules input inputOptions e w]
      emitted_onChange [of rules input inputOptions e w]
    by (simp add: emitAllowed_def)
  from focus blur change onlyBlur none show ?thesis
    by blast
qed

text \<open>
  C3 (as amended). A call of the focus handler, of the blur handler or of the change
  handler publishes one event, named after its trigger, exactly when the call completes and
  the field's \<^verbatim>\<open>emitOn\<close> is absent or includes the trigger's name; otherwise it publishes
  nothing. The triggers are \<^verbatim>\<open>focus\<close>, \<^verbatim>\<open>blur\<close> and, for the change handler, the
  resolved trigger: the configured \<^verbatim>\<open>validateOn\<close> when it is a non-empty name, else
  \<^verbatim>\<open>change\<close>. With \<^verbatim>\<open>emitOn: [blur]\<close> the focus handler publishes nothing, the
  change handler publishes nothing unless its resolved trigger is the blur event, and every
  blur call that completes publishes exactly one blur event. With an empty \<^verbatim>\<open>emitOn\<close> no
  handler publishes anything.
\<close>

theorem emit_gating:
  "emitted (snd (onFocus input inputOptions e w)) =
     emitted w @
       (if fst (onFocus input inputOptions e w) = None
           \<and> (\<forall>opts names. inputOptions = Some opts \<and> emitOn opts = Some names
                 \<longrightarrow> Events_focus \<in> set names)
        then [(Events_focus,
               FieldPayload (getProp (formData (snd (onFocus input inputOptions e w))) (name input)))]
        else [])
   \<and> emitted (snd (onBlur rules input inputOptions e w)) =
     emitted w @
       (if fst (onBlur rules input inputOptions e w) = None
           \<and> (\<forall>opts names. inputOptions = Some opts \<and> emitOn opts = Some names
                 \<longrightarrow> Events_blur \<in> set names)
        then [(Events_blur,
               FieldPayload (getProp (formData (snd (onBlur rules input inputOptions e w)))
                 (name input)))]
        else [])
   \<and> emitted (snd (onChange rules input inputOptions e w)) =
     emitted w @
       (if fst (onChange rules input inputOptions e w) = None
           \<and> (\<forall>opts names. inputOptions = Some opts \<and> emitOn opts = Some names
                 \<longrightarrow> selectedEvent inputOptions \<in> set names)
        then [(selectedEvent inputOptions,
               FieldPayload (getProp (formData (snd (onChange rules input inputOptions e w)))
                 (name input)))]
        else [])
   \<and> (\<forall>opts. inputOptions = Some opts \<and> emitOn opts = Some [Events_blur] \<longrightarrow>
         emitted (snd (onFocus input inputOptions e w)) = emitted w
       \<and> (selectedEvent inputOptions \<noteq> Events_blur \<longrightarrow>
             emitted (snd (onChange rules input inputOptions e w)) = emitted w)
       \<and> (fst (onBlur rules input inputOptions e w) = None \<longrightarrow>
             emitted (snd (onBlur rules input inputOptions e w)) =
               emitted w @
                 [(Events_blur,
                   FieldPayload (getProp (formData (snd (onBlur rules input inputOptions e w)))
                     (name input)))]))
   \<and> (\<forall>opts. inputOptions = Some opts \<and> emitOn opts = Some [] \<longrightarrow>
         emitted (snd (onFocus input inputOptions e w)) = emitted w
       \<and> emitted (snd (onBlur rules input inputOptions e w)) = emitted w
       \<and> emitted (snd (onChange rules input inputOptions e w)) = emitted w)
   \<and> (\<forall>opts ev. inputOptions = Some opts \<and> validateOn opts = Some ev \<and> ev \<noteq> []
         \<longrightarrow> selectedEvent inputOptions = ev)
   \<and> (inputOptions = None
        \<or> (\<exists>opts. inputOptions = Some opts
              \<and> (validateOn opts = None \<or> validateOn opts = Some []))
      \<longrightarrow> selectedEvent inputOptions = ''change'')
   \<and> Events_focus = ''focus'' \<and> Events_blur = ''blur''"
proof -
  have configured: "\<forall>opts ev. inputOptions = Some opts \<and> validateOn opts = Some ev \<and> ev \<noteq> []
         \<longrightarrow> selectedEvent inputOptions = ev"
    by (simp add: selectedEvent_def)
  have canonical: "inputOptions = None
        \<or> (\<exists>opts. inputOptions = Some opts
              \<and> (validateOn opts = None \<or> validateOn opts = Some []))
      \<longrightarrow> selectedEvent inputOptions = ''change''"
    by (auto simp: selectedEvent_def Events_change_def)
  have names: "Events_focus = ''focus''" "Events_blur = ''blur''"
    by (simp_all add: Events_focus_def Events_blur_def)
  from emit_gating_handlers [of input inputOptions e w rules] configured canonical names
  show ?thesis
    by blast
qed

theorem emit_gating_witness:
  "emitOn \<lparr>validateOn = None, emitOn = Some [Events_blur], validateDirtyOnly = None\<rparr>
     = Some [Events_blur]
   \<and> selectedEvent (Some \<lparr>validateOn = None, emitOn = Some [Events_blur], validateDirtyOnly = None\<rparr>)
       \<noteq> Events_blur
   \<and> fst (onBlur (rejecting ''other'') (textControl ''email'')
        (Some \<lparr>validateOn = None, emitOn = Some [Events_blur], validateDirtyOnly = None\<rparr>)
        (eventOn (textControl ''email'')) (world (freshHost [textControl ''email'']))) = None
   \<and> emitted (snd (onFocus (textControl ''email'')
        (Some \<lparr>validateOn = None, emitOn = Some [Events_blur], validateDirtyOnly = None\<rparr>)
        (eventOn (textControl ''email'')) (world (freshHost [textControl ''email'']))))
       = emitted (world (freshHost [textControl ''email'']))
   \<and> emitted (snd (onChange (rejecting ''other'') (textControl ''email'')
        (Some \<lparr>validateOn = None, emitOn = Some [Events_blur], validateDirtyOnly = None\<rparr>)
        (eventOn (textControl ''email'')) (world (freshHost [textControl ''email'']))))
       = emitted (world (freshHost [textControl ''email'']))
   \<and> emitted (snd (onBlur (rejecting ''other'') (textControl ''email'')
        (Some \<lparr>validateOn = None, emitOn = Some [Events_blur], validateDirtyOnly = None\<rparr>)
        (eventOn (textControl ''email'')) (world (freshHost [textControl ''email'']))))
       = [(Events_blur,
           FieldPayload (Some \<lparr>fvalue = StringValue [], isValid = True, isTouched = True,
             isFocused = False, isDirty = False, errors = [], inputType = Some ''text''\<rparr>))]
   \<and> emitted (snd (onBlur (rejecting ''other'') (textControl ''email'')
        (Some \<lparr>validateOn = None, emitOn = Some [], validateDirtyOnly = None\<rparr>)
        (eventOn (textControl ''email'')) (world (freshHost [textControl ''email'']))))
       = emitted (world (freshHost [textControl ''email'']))
   \<and> validateOn \<lparr>validateOn = Some ''input'', emitOn = Some [''input''],
                    validateDirtyOnly = None\<rparr> = Some ''input''
   \<and> emitted (snd (onChange (rejecting ''other'') (textControl ''email'')
        (Some \<lparr>validateOn = Some ''input'', emitOn = Some [''input''], validateDirtyOnly = None\<rparr>)
        (eventOn (textControl ''email'')) (world (freshHost [textControl ''email'']))))
       = [(''input'',
           FieldPayload (Some \<lparr>fvalue = StringValue [], isValid = True, isTouched = False,
             isFocused = False, isDirty = True, errors = [], inputType = Some ''text''\<rparr>))]
   \<and> emitted (snd (onFocus (textControl ''email'')
        (Some \<lparr>validateOn = Some ''input'', emitOn = Some [''input''], validateDirtyOnly = None\<rparr>)
        (eventOn (textControl ''email'')) (world (freshHost [textControl ''email'']))))
       = []
   \<and> emitted (snd (onChange (rejecting ''other'') (textControl ''email'') None
        (eventOn (textControl ''email'')) (world (freshHost [textControl ''email'']))))
       = [(''change'',
           FieldPayload (Some \<lparr>fvalue = StringValue [], isValid = True, isTouched = False,
             isFocused = False, isDirty = True, errors = [], inputType = Some ''text''\<rparr>))]"
proof -
  let ?c = "textControl ''email''"
  let ?w = "world (freshHost [?c])"
  let ?onlyBlur = "\<lparr>validateOn = None, emitOn = Some [Events_blur], validateDirtyOnly = None\<rparr>"
  let ?nothing = "\<lparr>validateOn = None, emitOn = Some [], validateDirtyOnly = None\<rparr>"
  have cfg: "emitOn ?onlyBlur = Some [Events_blur]" "emitOn ?nothing = Some []"
    by simp_all
  have trigger: "selectedEvent (Some ?onlyBlur) \<noteq> Events_blur" "Events_focus \<noteq> Events_blur"
    by (simp_all add: selectedEvent_def Events_change_def Events_blur_def Events_focus_def)
  have completes: "fst (onBlur (rejecting ''other'') ?c (Some ?onlyBlur) (eventOn ?c) ?w) = None"
    by (simp add: sample_defs build_defs handler_defs)
  have payload: "getProp (formData (snd (onBlur (rejecting ''other'') ?c (Some ?onlyBlur)
        (eventOn ?c) ?w))) (name ?c)
      = Some \<lparr>fvalue = StringValue [], isValid = True, isTouched = True,
             isFocused = False, isDirty = False, errors = [], inputType = Some ''text''\<rparr>"
    by (simp add: sample_defs build_defs handler_defs)
  have before: "emitted ?w = []"
    by (simp add: freshHost_def)
  let ?onInput = "\<lparr>validateOn = Some ''input'', emitOn = Some [''input''],
                     validateDirtyOnly = None\<rparr>"
  have onInput: "fst (onChange (rejecting ''other'') ?c (Some ?onInput) (eventOn ?c) ?w) = None"
    "getProp (formData (snd (onChange (rejecting ''other'') ?c (Some ?onInput) (eventOn ?c) ?w)))
       (name ?c)
      = Some \<lparr>fvalue = StringValue [], isValid = True, isTouched = False,
             isFocused = False, isDirty = True, errors = [], inputType = Some ''text''\<rparr>"
    by (simp_all add: sample_defs build_defs handler_defs)
  have plain: "fst (onChange (rejecting ''other'') ?c None (eventOn ?c) ?w) = None"
    "getProp (formData (snd (onChange (rejecting ''other'') ?c None (eventOn ?c) ?w))) (name ?c)
      = Some \<lparr>fvalue = StringValue [], isValid = True, isTouched = False,
             isFocused = False, isDirty = True, errors = [], inputType = Some ''text''\<rparr>"
    by (simp_all add: sample_defs build_defs handler_defs)
  have first: "emitted (snd (onFocus ?c (Some ?onlyBlur) (eventOn ?c) ?w)) = emitted ?w
      \<and> emitted (snd (onChange (rejecting ''other'') ?c (Some ?onlyBlur) (eventOn ?c) ?w))
          = emitted ?w
      \<and> emitted (snd (onBlur (rejecting ''other'') ?c (Some ?onlyBlur) (eventOn ?c) ?w))
          = [(Events_blur,
           FieldPayload (Some \<lparr>fvalue = StringValue [], isValid = True, isTouched = True,
             isFocused = False, isDirty = False, errors = [], inputType = Some ''text''\<rparr>))]
      \<and> emitted (snd (onBlur (rejecting ''other'') ?c (Some ?nothing) (eventOn ?c) ?w))
          = emitted ?w"
    using cfg trigger completes payload before
      emit_gating [of ?c "Some ?onlyBlur" "eventOn ?c" ?w "rejecting ''other''"]
      emit_gating [of ?c "Some ?nothing" "eventOn ?c" ?w "rejecting ''other''"]
    by simp
  have second: "emitted (snd (onChange (rejecting ''other'') ?c (Some ?onInput) (eventOn ?c) ?w))
          = [(''input'',
           FieldPayload (Some \<lparr>fvalue = StringValue [], isValid = True, isTouched = False,
             isFocused = False, isDirty = True, errors = [], inputType = Some ''text''\<rparr>))]
      \<and> emitted (snd (onFocus ?c (Some ?onInput) (eventOn ?c) ?w)) = []"
    using onInput before
      emit_gating [of ?c "Some ?onInput" "eventOn ?c" ?w "rejecting ''other''"]
    by (simp add: Events_focus_def)
  have third: "emitted (snd (onChange (rejecting ''other'') ?c None (eventOn ?c) ?w))
          = [(''change'',
           FieldPayload (Some \<lparr>fvalue = StringValue [], isValid = True, isTouched = False,
             isFocused = False, isDirty = True, errors = [], inputType = Some ''text''\<rparr>))]"
    using plain before
      emit_gating [of ?c None "eventOn ?c" ?w "rejecting ''other''"]
    by simp
  have cfgInput: "validateOn ?onInput = Some ''input''"
    by simp
  from cfg(1) trigger(1) completes first second third cfgInput show ?thesis
    by blast
qed

text \<open>
  An empty \<^verbatim>\<open>emitOn\<close> does not allow every trigger: a focus call that completes
  publishes nothing.
\<close>

theorem empty_emitOn_counterexample:
  "emitOn \<lparr>validateOn = None, emitOn = Some [], validateDirtyOnly = None\<rparr> = Some []
   \<and> fst (onFocus (textControl ''email'')
        (Some \<lparr>validateOn = None, emitOn = Some [], validateDirtyOnly = None\<rparr>)
        (eventOn (textControl ''email'')) (world (freshHost [textControl ''email'']))) = None
   \<and> emitted (snd (onFocus (textControl ''email'')
        (Some \<lparr>validateOn = None, emitOn = Some [], validateDirtyOnly = None\<rparr>)
        (eventOn (textControl ''email'')) (world (freshHost [textControl ''email''])))) = []"
  by (simp add: sample_defs build_defs handler_defs)

section \<open>Exceptions thrown by validation\<close>

lemma onChange_throws:
  assumes entry: "getProp (formData w) (name input) = Some entry"
    and throws: "rules input (updField (name input) (\<lambda>x. x\<lparr>fvalue := changedValue input e\<rparr>) w)
                   inputOptions = Inl ex"
  shows "onChange rules input inputOptions e w =
           (Some ex,
            (updField (name input) (\<lambda>x. x\<lparr>fvalue := changedValue input e\<rparr>) w)
              \<lparr>validated := validated w @ [input]\<rparr>)"
  using entry throws
    applyFieldValidation_throws [of rules input
      "updField (name input) (\<lambda>x. x\<lparr>fvalue := changedValue input e\<rparr>) w" inputOptions ex]
  by (simp add: onChange_def Let_def world_simps)

lemma onBlur_throws:
  assumes entry: "getProp (formData w) (name input) = Some entry"
    and first: "\<not> isTouched entry"
    and forced: "validateDirtyOnlyIsFalse inputOptions"
    and throws: "rules input
                   (updField (name input) (\<lambda>x. x\<lparr>isTouched := True\<rparr>)
                      (updField (name input) (\<lambda>x. x\<lparr>isFocused := False\<rparr>) w))
                   inputOptions = Inl ex"
  shows "fst (onBlur rules input inputOptions e w) = Some ex
       \<and> emitted (snd (onBlur rules input inputOptions e w)) = emitted w"
  using entry first forced throws
    applyFieldValidation_throws [of rules input
      "updField (name input) (\<lambda>x. x\<lparr>isTouched := True\<rparr>)
         (updField (name input) (\<lambda>x. x\<lparr>isFocused := False\<rparr>) w)" inputOptions ex]
  by (simp add: onBlur_def Let_def world_simps)

lemma submitLoop_throws:
  assumes pre: "submitLoop rules options pre True w = (None, valid, w1)"
    and throws: "rules input w1 (optionsFor options input) = Inl ex"
  shows "submitLoop rules options (pre @ input # post) True w =
           (Some ex, valid, w1\<lparr>validated := validated w @ pre @ [input]\<rparr>)"
proof -
  have "validated w1 = validated w @ pre"
    using pre by (rule validated_submitLoop)
  then show ?thesis
    using pre throws
      applyFieldValidation_throws [of rules input w1 "optionsFor options input" ex]
    by (simp add: submitLoop_append)
qed

text \<open>
  C6. No handler catches what validation throws. When validation throws in a call of the
  change handler, the call ends with that exception: nothing is published and the entry is
  left with the new value assigned and nothing else changed, so \<^verbatim>\<open>isDirty\<close> is not
  updated. When validation throws for a control in a call of the submit handler, the call
  ends with that exception, the controls after it are not validated and no submit event
  is published; a submit call that ends with any exception publishes nothing. The same
  holds for the validation that the blur handler calls.
\<close>

theorem validation_errors_abort:
  "(getProp (formData w) (name input) = Some entry
      \<and> rules input (updField (name input) (\<lambda>x. x\<lparr>fvalue := changedValue input e\<rparr>) w)
            inputOptions = Inl ex \<longrightarrow>
        fst (onChange rules input inputOptions e w) = Some ex
      \<and> emitted (snd (onChange rules input inputOptions e w)) = emitted w
      \<and> getProp (formData (snd (onChange rules input inputOptions e w))) (name input) =
          Some (entry\<lparr>fvalue := changedValue input e\<rparr>))
   \<and> (submitLoop rules options pre True w = (None, valid, w1)
      \<and> rules control w1 (optionsFor options control) = Inl ex \<longrightarrow>
        fst (onSubmit rules (pre @ control # post) options e w) = Some ex
      \<and> emitted (snd (snd (onSubmit rules (pre @ control # post) options e w))) = emitted w
      \<and> validated (snd (snd (onSubmit rules (pre @ control # post) options e w))) =
          validated w @ pre @ [control])
   \<and> (fst (onSubmit rules inputs options e w) \<noteq> None \<longrightarrow>
        emitted (snd (snd (onSubmit rules inputs options e w))) = emitted w)
   \<and> (getProp (formData w) (name input) = Some entry \<and> \<not> isTouched entry
      \<and> (\<exists>opts. inputOptions = Some opts \<and> validateDirtyOnly opts = Some False)
      \<and> rules input
            (updField (name input) (\<lambda>x. x\<lparr>isTouched := True\<rparr>)
               (updField (name input) (\<lambda>x. x\<lparr>isFocused := False\<rparr>) w))
            inputOptions = Inl ex \<longrightarrow>
        fst (onBlur rules input inputOptions e w) = Some ex
      \<and> emitted (snd (onBlur rules input inputOptions e w)) = emitted w)"
proof -
  have change: "fst (onChange rules input inputOptions e w) = Some ex
      \<and> emitted (snd (onChange rules input inputOptions e w)) = emitted w
      \<and> getProp (formData (snd (onChange rules input inputOptions e w))) (name input) =
          Some (entry\<lparr>fvalue := changedValue input e\<rparr>)"
    if "getProp (formData w) (name input) = Some entry"
      and "rules input (updField (name input) (\<lambda>x. x\<lparr>fvalue := changedValue input e\<rparr>) w)
            inputOptions = Inl ex"
    using that onChange_throws [of w input entry rules e inputOptions ex]
    by (simp add: world_simps)
  have submit: "fst (onSubmit rules (pre @ control # post) options e w) = Some ex
      \<and> emitted (snd (snd (onSubmit rules (pre @ control # post) options e w))) = emitted w
      \<and> validated (snd (snd (onSubmit rules (pre @ control # post) options e w))) =
          validated w @ pre @ [control]"
    if "submitLoop rules options pre True w = (None, valid, w1)"
      and "rules control w1 (optionsFor options control) = Inl ex"
  proof -
    have "emitted w1 = emitted w"
      using emitted_submitLoop [of rules options pre True w] that(1) by simp
    then show ?thesis
      using that submitLoop_throws [of rules options pre w valid w1 control ex post]
      by (simp add: onSubmit_def Let_def)
  qed
  have anyThrow: "emitted (snd (snd (onSubmit rules inputs options e w))) = emitted w"
    if "fst (onSubmit rules inputs options e w) \<noteq> None"
  proof -
    obtain thrown v w2 where loop: "submitLoop rules options inputs True w = (thrown, v, w2)"
      by (cases "submitLoop rules options inputs True w")
    then have "emitted w2 = emitted w"
      using emitted_submitLoop [of rules options inputs True w] by simp
    with that loop show ?thesis
      by (cases thrown) (simp_all add: onSubmit_def Let_def)
  qed
  have blur: "fst (onBlur rules input inputOptions e w) = Some ex
      \<and> emitted (snd (onBlur rules input inputOptions e w)) = emitted w"
    if "getProp (formData w) (name input) = Some entry" and "\<not> isTouched entry"
      and "\<exists>opts. inputOptions = Some opts \<and> validateDirtyOnly opts = Some False"
      and "rules input
            (updField (name input) (\<lambda>x. x\<lparr>isTouched := True\<rparr>)
               (updField (name input) (\<lambda>x. x\<lparr>isFocused := False\<rparr>) w))
            inputOptions = Inl ex"
  proof -
    from that(3) have "validateDirtyOnlyIsFalse inputOptions"
      by (auto simp: validateDirtyOnlyIsFalse_def)
    with that show ?thesis
      using onBlur_throws [of w input entry inputOptions rules ex e] by simp
  qed
  from change submit anyThrow blur show ?thesis
    by blast
qed

theorem validation_errors_abort_witness:
  "getProp (formData (world (freshHost [textControl ''a'', textControl ''b'', textControl ''c''])))
     (name (textControl ''b'')) = Some (initialField [] (textControl ''b''))
   \<and> fst (onChange (throwing ''b'') (textControl ''b'') None
        (eventOn \<lparr>name = ''b'', value' = ''typed'', element = HTMLInputElement ''text'' False\<rparr>)
        (world (freshHost [textControl ''a'', textControl ''b'', textControl ''c''])))
       = Some (ValidationFailure ''rule failed'')
   \<and> emitted (snd (onChange (throwing ''b'') (textControl ''b'') None
        (eventOn \<lparr>name = ''b'', value' = ''typed'', element = HTMLInputElement ''text'' False\<rparr>)
        (world (freshHost [textControl ''a'', textControl ''b'', textControl ''c'']))))
       = []
   \<and> getProp (formData (snd (onChange (throwing ''b'') (textControl ''b'') None
        (eventOn \<lparr>name = ''b'', value' = ''typed'', element = HTMLInputElement ''text'' False\<rparr>)
        (world (freshHost [textControl ''a'', textControl ''b'', textControl ''c''])))))
        ''b''
       = Some ((initialField [] (textControl ''b''))\<lparr>fvalue := StringValue ''typed''\<rparr>)
   \<and> fst (submitLoop (throwing ''b'') None [textControl ''a''] True
        (world (freshHost [textControl ''a'', textControl ''b'', textControl ''c'']))) = None
   \<and> fst (onSubmit (throwing ''b'') [textControl ''a'', textControl ''b'', textControl ''c''] None
        (eventOn (textControl ''form''))
        (world (freshHost [textControl ''a'', textControl ''b'', textControl ''c''])))
       = Some (ValidationFailure ''rule failed'')
   \<and> emitted (snd (snd
        (onSubmit (throwing ''b'') [textControl ''a'', textControl ''b'', textControl ''c''] None
           (eventOn (textControl ''form''))
           (world (freshHost [textControl ''a'', textControl ''b'', textControl ''c''])))))
       = []
   \<and> validated (snd (snd
        (onSubmit (throwing ''b'') [textControl ''a'', textControl ''b'', textControl ''c''] None
           (eventOn (textControl ''form''))
           (world (freshHost [textControl ''a'', textControl ''b'', textControl ''c''])))))
       = [textControl ''a'', textControl ''b'']
   \<and> fst (onBlur (throwing ''b'') (textControl ''b'')
        (Some \<lparr>validateOn = None, emitOn = None, validateDirtyOnly = Some False\<rparr>)
        (eventOn (textControl ''b''))
        (world (freshHost [textControl ''a'', textControl ''b'', textControl ''c''])))
       = Some (ValidationFailure ''rule failed'')
   \<and> emitted (snd (onBlur (throwing ''b'') (textControl ''b'')
        (Some \<lparr>validateOn = None, emitOn = None, validateDirtyOnly = Some False\<rparr>)
        (eventOn (textControl ''b''))
        (world (freshHost [textControl ''a'', textControl ''b'', textControl ''c'']))))
       = []"
proof -
  let ?a = "textControl ''a''" and ?b = "textControl ''b''" and ?c = "textControl ''c''"
  let ?w = "world (freshHost [?a, ?b, ?c])"
  let ?typed = "eventOn \<lparr>name = ''b'', value' = ''typed'', element = HTMLInputElement ''text'' False\<rparr>"
  let ?forced = "Some \<lparr>validateOn = None, emitOn = None, validateDirtyOnly = Some False\<rparr>"
  let ?failure = "ValidationFailure ''rule failed''"
  let ?w1 = "snd (snd (submitLoop (throwing ''b'') None [?a] True ?w))"
  have entry: "getProp (formData ?w) (name ?b) = Some (initialField [] ?b)"
    by (simp add: sample_defs build_defs getProp_def)
  have fresh: "\<not> isTouched (initialField [] ?b)" "emitted ?w = []" "validated ?w = []"
    by (simp_all add: initialField_def freshHost_def)
  have throws: "throwing ''b'' ?b w' options = Inl ?failure" for w' options
    by (simp add: throwing_def textControl_def)
  have pre: "submitLoop (throwing ''b'') None [?a] True ?w = (None, True, ?w1)"
    by (simp add: sample_defs build_defs handler_defs)
  have assigned: "entry\<lparr>fvalue := changedValue ?b ?typed\<rparr> = entry\<lparr>fvalue := StringValue ''typed''\<rparr>"
    for entry :: FormulaValue
    by (simp add: changedValue_def isCheckbox_def textControl_def eventOn_def)
  have name_b: "name ?b = ''b''"
    by (simp add: textControl_def)
  have explicit: "\<exists>opts. ?forced = Some opts \<and> validateDirtyOnly opts = Some False"
    by simp
  note change = validation_errors_abort [of ?w ?b "initialField [] ?b" "throwing ''b''" ?typed None
        ?failure None "[?a]" True ?w1 ?b "[?c]" "[?a, ?b, ?c]"]
  note submit = validation_errors_abort [of ?w ?b "initialField [] ?b" "throwing ''b''"
        "eventOn (textControl ''form'')" None
        ?failure None "[?a]" True ?w1 ?b "[?c]" "[?a, ?b, ?c]"]
  note blur = validation_errors_abort [of ?w ?b "initialField [] ?b" "throwing ''b''" "eventOn ?b"
        ?forced ?failure None "[?a]" True ?w1 ?b "[?c]" "[?a, ?b, ?c]"]
  have onChange: "fst (onChange (throwing ''b'') ?b None ?typed ?w) = Some ?failure
      \<and> emitted (snd (onChange (throwing ''b'') ?b None ?typed ?w)) = []
      \<and> getProp (formData (snd (onChange (throwing ''b'') ?b None ?typed ?w))) ''b'' =
          Some ((initialField [] ?b)\<lparr>fvalue := StringValue ''typed''\<rparr>)"
    using change entry throws fresh assigned name_b by simp
  have onSubmit: "fst (onSubmit (throwing ''b'') [?a, ?b, ?c] None (eventOn (textControl ''form'')) ?w)
        = Some ?failure
      \<and> emitted (snd (snd (onSubmit (throwing ''b'') [?a, ?b, ?c] None
            (eventOn (textControl ''form'')) ?w))) = []
      \<and> validated (snd (snd (onSubmit (throwing ''b'') [?a, ?b, ?c] None
            (eventOn (textControl ''form'')) ?w))) = [?a, ?b]"
    using submit pre throws fresh by simp
  have onBlur: "fst (onBlur (throwing ''b'') ?b ?forced (eventOn ?b) ?w) = Some ?failure
      \<and> emitted (snd (onBlur (throwing ''b'') ?b ?forced (eventOn ?b) ?w)) = []"
    using blur entry throws fresh explicit by simp
  have preDone: "fst (submitLoop (throwing ''b'') None [?a] True ?w) = None"
    using pre by (metis fst_conv)
  from entry preDone onChange onSubmit onBlur show ?thesis
    by blast
qed

section \<open>The change handler\<close>

lemma onChange_entry:
  assumes "getProp (formData w) (name input) = Some entry"
  shows "validated (snd (onChange rules input inputOptions e w)) = validated w @ [input]
       \<and> (\<exists>entry'.
            getProp (formData (snd (onChange rules input inputOptions e w))) (name input)
              = Some entry'
          \<and> fvalue entry' =
              (if isCheckbox input then BooleanValue (truthy_checked (target e))
               else StringValue (value' (target e)))
          \<and> (fst (onChange rules input inputOptions e w) = None \<longrightarrow> isDirty entry'))"
proof -
  let ?key = "name input"
  let ?w1 = "updField ?key (\<lambda>x. x\<lparr>fvalue := changedValue input e\<rparr>) w"
  let ?v = "applyFieldValidation rules input inputOptions ?w1"
  obtain thrown w2 where v: "?v = (thrown, w2)" by (cases ?v)
  obtain f where f: "f = id \<or> (\<exists>v errs. f = (\<lambda>x. x\<lparr>isValid := v, errors := errs\<rparr>))"
    and entries: "\<forall>k. getProp (formData (snd ?v)) k =
        (if k = ?key then map_option f (getProp (formData ?w1) k) else getProp (formData ?w1) k)"
    using getProp_applyFieldValidation [of rules input inputOptions ?w1] by blast
  have kept: "fvalue (f x) = fvalue x \<and> isDirty (f x) = isDirty x" for x
    using f by auto
  have after: "getProp (formData w2) ?key = Some (f (entry\<lparr>fvalue := changedValue input e\<rparr>))"
    using entries assms v by (simp add: world_simps)
  have logged: "validated w2 = validated w @ [input]"
    using validated_applyFieldValidation [of rules input inputOptions ?w1] v
    by (simp add: world_simps)
  show ?thesis
    using assms v after logged kept
    by (cases thrown) (simp_all add: onChange_def Let_def world_simps changedValue_def)
qed

lemma onChange_completes:
  assumes entry: "getProp (formData w) (name input) = Some entry"
    and verdict: "rules input (updField (name input) (\<lambda>x. x\<lparr>fvalue := changedValue input e\<rparr>) w)
                   inputOptions = Inr verdict"
  shows "fst (onChange rules input inputOptions e w) = None"
proof -
  obtain v errs where "verdict = (v, errs)" by (cases verdict)
  with verdict have "rules input (updField (name input) (\<lambda>x. x\<lparr>fvalue := changedValue input e\<rparr>) w)
                   inputOptions = Inr (v, errs)" by simp
  then show ?thesis
    using entry
      applyFieldValidation_stores [of rules input
        "updField (name input) (\<lambda>x. x\<lparr>fvalue := changedValue input e\<rparr>) w" inputOptions v errs
        "entry\<lparr>fvalue := changedValue input e\<rparr>"]
    by (simp add: onChange_def Let_def world_simps)
qed

lemma subscribe_single:
  "subscribeToInputChanges [input] options (freshHost inputs) =
     ([name input \<mapsto>
         \<lparr> change = \<lparr>ident = 0, kind = ChangeHandler, boundInput = input,
                       boundOptions = optionsFor options input\<rparr>,
           focus = \<lparr>ident = 1, kind = FocusHandler, boundInput = input,
                      boundOptions = optionsFor options input\<rparr>,
           blur = \<lparr>ident = 2, kind = BlurHandler, boundInput = input,
                     boundOptions = optionsFor options input\<rparr> \<rparr>],
      (freshHost inputs)
        \<lparr> listeners :=
            [(input, selectedEvent (optionsFor options input),
                \<lparr>ident = 0, kind = ChangeHandler, boundInput = input,
                  boundOptions = optionsFor options input\<rparr>),
             (input, Events_focus,
                \<lparr>ident = 1, kind = FocusHandler, boundInput = input,
                  boundOptions = optionsFor options input\<rparr>),
             (input, Events_blur,
                \<lparr>ident = 2, kind = BlurHandler, boundInput = input,
                  boundOptions = optionsFor options input\<rparr>)],
          nextIdent := 3 \<rparr>)"
  by (simp add: subscribeToInputChanges_def freshHost_def newCallback_def addEventListener_def
      Let_def numeral_2_eq_2 numeral_3_eq_3)

lemma onChange_example:
  assumes notCheckbox: "\<not> isCheckbox \<lparr>name = ''email'', value' = [], element = el\<rparr>"
    and total: "\<forall>w'. \<exists>verdict. rules \<lparr>name = ''email'', value' = [], element = el\<rparr> w' None = Inr verdict"
  shows "\<exists>entry'.
      getProp
        (formData (world
          (dispatchEvent rules \<lparr>name = ''email'', value' = [], element = el\<rparr> Events_change
             \<lparr>target = \<lparr>name = ''email'', value' = ''a@b.com'', element = el\<rparr>,
               defaultPrevented = False\<rparr>
             (snd (subscribeToInputChanges [\<lparr>name = ''email'', value' = [], element = el\<rparr>] None
                (freshHost [\<lparr>name = ''email'', value' = [], element = el\<rparr>]))))))
        ''email'' = Some entry'
    \<and> fvalue entry' = StringValue ''a@b.com''
    \<and> isDirty entry'
    \<and> emitted (world
          (dispatchEvent rules \<lparr>name = ''email'', value' = [], element = el\<rparr> Events_change
             \<lparr>target = \<lparr>name = ''email'', value' = ''a@b.com'', element = el\<rparr>,
               defaultPrevented = False\<rparr>
             (snd (subscribeToInputChanges [\<lparr>name = ''email'', value' = [], element = el\<rparr>] None
                (freshHost [\<lparr>name = ''email'', value' = [], element = el\<rparr>])))))
        = [(Events_change, FieldPayload (Some entry'))]"
proof -
  let ?ctl = "\<lparr>name = ''email'', value' = [], element = el\<rparr>"
  let ?e = "\<lparr>target = \<lparr>name = ''email'', value' = ''a@b.com'', element = el\<rparr>,
             defaultPrevented = False\<rparr>"
  let ?w0 = "world (freshHost [?ctl])"
  let ?h1 = "snd (subscribeToInputChanges [?ctl] None (freshHost [?ctl]))"
  have names: "Events_change \<noteq> Events_focus" "Events_change \<noteq> Events_blur"
    by (simp_all add: Events_change_def Events_focus_def Events_blur_def)
  have "listenersFor ?ctl Events_change ?h1 =
      [\<lparr>ident = 0, kind = ChangeHandler, boundInput = ?ctl, boundOptions = None\<rparr>]"
    using names
    by (simp add: subscribe_single listenersFor_def optionsFor_def selectedEvent_def)
  then have dispatched: "world (dispatchEvent rules ?ctl Events_change ?e ?h1) =
      snd (onChange rules ?ctl None ?e ?w0)"
    by (simp add: dispatchEvent_def call_def subscribe_single)
  have "getProp (createFormData [?ctl]) (name ?ctl) = Some (initialField [] ?ctl)"
    by (rule getProp_createFormData) simp_all
  then have entry: "getProp (formData ?w0) (name ?ctl) = Some (initialField [] ?ctl)"
    by (simp add: freshHost_def)
  have fresh: "emitted ?w0 = []"
    by (simp add: freshHost_def)
  obtain verdict where
    "rules ?ctl (updField (name ?ctl) (\<lambda>x. x\<lparr>fvalue := changedValue ?ctl ?e\<rparr>) ?w0) None
       = Inr verdict"
    using total by blast
  with entry have completes: "fst (onChange rules ?ctl None ?e ?w0) = None"
    by (rule onChange_completes)
  from onChange_entry [OF entry, of rules None ?e] completes notCheckbox
  obtain entry' where
    entry': "getProp (formData (snd (onChange rules ?ctl None ?e ?w0))) (name ?ctl) = Some entry'"
    and "fvalue entry' = StringValue ''a@b.com''" and "isDirty entry'"
    by auto
  moreover have "emitted (snd (onChange rules ?ctl None ?e ?w0)) =
      [(Events_change, FieldPayload (Some entry'))]"
    using emitted_onChange [of rules ?ctl None ?e ?w0] completes entry' fresh
    by (simp add: emitAllowed_def selectedEvent_def)
  ultimately show ?thesis
    unfolding dispatched by auto
qed

lemma isCheckbox_iff:
  "isCheckbox input \<longleftrightarrow> (\<exists>c. element input = HTMLInputElement ''checkbox'' c)"
  by (cases "element input") (simp_all add: isCheckbox_def)

lemma truthy_checked_iff:
  "truthy_checked control \<longleftrightarrow> (\<exists>t. element control = HTMLInputElement t True)"
  by (cases "element control") (simp_all add: truthy_checked_def checked_def)

text \<open>
  C2. Every call of the change handler on a field stores the field's value: when the
  captured control is a checkbox (a native input of type \<^verbatim>\<open>checkbox\<close>), the boolean that
  tells whether the event target is a native input with its checked flag set; otherwise the
  raw value of the event target, with no fallback to the previous value for a radio button.
  The call calls validation for the field, once, and when it completes \<^verbatim>\<open>isDirty\<close> is
  true. In particular, for the control named \<^verbatim>\<open>email\<close> with an empty value, not a
  checkbox, subscribed without options after \<^verbatim>\<open>createFormData\<close>, and a validation that
  does not throw: dispatching a \<^verbatim>\<open>change\<close> event whose target has the value
  \<^verbatim>\<open>a@b.com\<close> leaves the field with that value and dirty, and publishes exactly one
  event, named \<^verbatim>\<open>change\<close>, with the field's entry.
\<close>

theorem onChange_effect:
  "(getProp (formData w) (name input) = Some entry \<longrightarrow>
      validated (snd (onChange rules input inputOptions e w)) = validated w @ [input]
    \<and> (\<exists>entry'.
          getProp (formData (snd (onChange rules input inputOptions e w))) (name input)
            = Some entry'
        \<and> fvalue entry' =
            (if \<exists>c. element input = HTMLInputElement ''checkbox'' c
             then BooleanValue (\<exists>t. element (target e) = HTMLInputElement t True)
             else StringValue (value' (target e)))
        \<and> (fst (onChange rules input inputOptions e w) = None \<longrightarrow> isDirty entry')))
   \<and> ((\<forall>c. el \<noteq> HTMLInputElement ''checkbox'' c)
      \<and> (\<forall>w'. \<exists>verdict.
            rules \<lparr>name = ''email'', value' = [], element = el\<rparr> w' None = Inr verdict) \<longrightarrow>
      (\<exists>entry'.
          getProp
            (formData (world
              (dispatchEvent rules \<lparr>name = ''email'', value' = [], element = el\<rparr> ''change''
                 \<lparr>target = \<lparr>name = ''email'', value' = ''a@b.com'', element = el\<rparr>,
                   defaultPrevented = False\<rparr>
                 (snd (subscribeToInputChanges
                    [\<lparr>name = ''email'', value' = [], element = el\<rparr>] None
                    (freshHost [\<lparr>name = ''email'', value' = [], element = el\<rparr>]))))))
            ''email'' = Some entry'
        \<and> fvalue entry' = StringValue ''a@b.com''
        \<and> isDirty entry'
        \<and> emitted (world
              (dispatchEvent rules \<lparr>name = ''email'', value' = [], element = el\<rparr> ''change''
                 \<lparr>target = \<lparr>name = ''email'', value' = ''a@b.com'', element = el\<rparr>,
                   defaultPrevented = False\<rparr>
                 (snd (subscribeToInputChanges
                    [\<lparr>name = ''email'', value' = [], element = el\<rparr>] None
                    (freshHost [\<lparr>name = ''email'', value' = [], element = el\<rparr>])))))
            = [(''change'', FieldPayload (Some entry'))]))"
proof -
  have plain: "\<not> isCheckbox \<lparr>name = ''email'', value' = [], element = el\<rparr>"
    if "\<forall>c. el \<noteq> HTMLInputElement ''checkbox'' c"
    using that by (simp add: isCheckbox_iff)
  show ?thesis
    using onChange_entry [of w input entry rules inputOptions e] onChange_example [of el rules] plain
    unfolding isCheckbox_iff [of input] truthy_checked_iff [of "target e"] Events_change_def
    by blast
qed

theorem onChange_effect_witness:
  "getProp (formData (world (freshHost [textControl ''email''])))
     (name (textControl ''email'')) = Some (initialField [] (textControl ''email''))
   \<and> (\<forall>c. HTMLInputElement ''text'' False \<noteq> HTMLInputElement ''checkbox'' c)
   \<and> (\<forall>w'. \<exists>verdict.
         rejecting ''other''
           \<lparr>name = ''email'', value' = [], element = HTMLInputElement ''text'' False\<rparr> w' None
         = Inr verdict)
   \<and> validated (snd (onChange (rejecting ''other'') (textControl ''email'') None
        (eventOn \<lparr>name = ''email'', value' = ''a@b.com'',
                   element = HTMLInputElement ''text'' False\<rparr>)
        (world (freshHost [textControl ''email''])))) = [textControl ''email'']
   \<and> emitted (world
        (dispatchEvent (rejecting ''other'')
           \<lparr>name = ''email'', value' = [], element = HTMLInputElement ''text'' False\<rparr>
           ''change''
           \<lparr>target = \<lparr>name = ''email'', value' = ''a@b.com'',
                        element = HTMLInputElement ''text'' False\<rparr>,
             defaultPrevented = False\<rparr>
           (snd (subscribeToInputChanges
              [\<lparr>name = ''email'', value' = [], element = HTMLInputElement ''text'' False\<rparr>] None
              (freshHost
                 [\<lparr>name = ''email'', value' = [], element = HTMLInputElement ''text'' False\<rparr>])))))
     = [(''change'',
         FieldPayload (Some \<lparr>fvalue = StringValue ''a@b.com'', isValid = True, isTouched = False,
           isFocused = False, isDirty = True, errors = [], inputType = Some ''text''\<rparr>))]
   \<and> getProp (formData (world (freshHost [checkboxControl ''agree'' False])))
        (name (checkboxControl ''agree'' False))
     = Some (initialField [] (checkboxControl ''agree'' False))
   \<and> getProp
        (formData (snd (onChange (rejecting ''other'') (checkboxControl ''agree'' False) None
           (eventOn (checkboxControl ''agree'' True))
           (world (freshHost [checkboxControl ''agree'' False])))))
        ''agree''
     = Some \<lparr>fvalue = BooleanValue True, isValid = True, isTouched = False,
           isFocused = False, isDirty = True, errors = [], inputType = Some ''checkbox''\<rparr>
   \<and> getProp (formData (world (freshHost [checkboxControl ''agree'' True])))
        (name (checkboxControl ''agree'' True))
     = Some (initialField [] (checkboxControl ''agree'' True))
   \<and> getProp
        (formData (snd (onChange (rejecting ''other'') (checkboxControl ''agree'' True) None
           (eventOn (checkboxControl ''agree'' False))
           (world (freshHost [checkboxControl ''agree'' True])))))
        ''agree''
     = Some \<lparr>fvalue = BooleanValue False, isValid = True, isTouched = False,
           isFocused = False, isDirty = True, errors = [], inputType = Some ''checkbox''\<rparr>"
proof -
  let ?c = "\<lparr>name = ''email'', value' = [], element = HTMLInputElement ''text'' False\<rparr>"
  let ?off = "checkboxControl ''agree'' False" and ?on = "checkboxControl ''agree'' True"
  have entry: "getProp (formData (world (freshHost [textControl ''email''])))
     (name (textControl ''email'')) = Some (initialField [] (textControl ''email''))"
    by (simp add: sample_defs build_defs getProp_def)
  have plain: "\<forall>c. HTMLInputElement ''text'' False \<noteq> HTMLInputElement ''checkbox'' c"
    by simp
  have total: "\<forall>w'. \<exists>verdict. rejecting ''other'' ?c w' None = Inr verdict"
    by (auto simp: rejecting_def)
  have published: "getProp
            (formData (world
              (dispatchEvent (rejecting ''other'') ?c ''change''
                 \<lparr>target = \<lparr>name = ''email'', value' = ''a@b.com'',
                              element = HTMLInputElement ''text'' False\<rparr>,
                   defaultPrevented = False\<rparr>
                 (snd (subscribeToInputChanges [?c] None (freshHost [?c]))))))
            ''email'' = Some \<lparr>fvalue = StringValue ''a@b.com'', isValid = True, isTouched = False,
           isFocused = False, isDirty = True, errors = [], inputType = Some ''text''\<rparr>"
    by (simp add: subscribeToInputChanges_def newCallback_def addEventListener_def
        dispatchEvent_def listenersFor_def call_def sample_defs build_defs handler_defs)
  have entryOff: "getProp (formData (world (freshHost [?off]))) (name ?off)
      = Some (initialField [] ?off)"
    by (simp add: checkboxControl_def sample_defs build_defs getProp_def)
  have entryOn: "getProp (formData (world (freshHost [?on]))) (name ?on)
      = Some (initialField [] ?on)"
    by (simp add: checkboxControl_def sample_defs build_defs getProp_def)
  have ticked: "getProp
        (formData (snd (onChange (rejecting ''other'') ?off None (eventOn ?on)
           (world (freshHost [?off]))))) ''agree''
     = Some \<lparr>fvalue = BooleanValue True, isValid = True, isTouched = False,
           isFocused = False, isDirty = True, errors = [], inputType = Some ''checkbox''\<rparr>"
    by (simp add: checkboxControl_def sample_defs build_defs handler_defs)
  have cleared: "getProp
        (formData (snd (onChange (rejecting ''other'') ?on None (eventOn ?off)
           (world (freshHost [?on]))))) ''agree''
     = Some \<lparr>fvalue = BooleanValue False, isValid = True, isTouched = False,
           isFocused = False, isDirty = True, errors = [], inputType = Some ''checkbox''\<rparr>"
    by (simp add: checkboxControl_def sample_defs build_defs handler_defs)
  have typed: "validated (snd (onChange (rejecting ''other'') (textControl ''email'') None
        (eventOn \<lparr>name = ''email'', value' = ''a@b.com'',
                   element = HTMLInputElement ''text'' False\<rparr>)
        (world (freshHost [textControl ''email''])))) = [textControl ''email'']
      \<and> emitted (world
        (dispatchEvent (rejecting ''other'') ?c ''change''
           \<lparr>target = \<lparr>name = ''email'', value' = ''a@b.com'',
                        element = HTMLInputElement ''text'' False\<rparr>,
             defaultPrevented = False\<rparr>
           (snd (subscribeToInputChanges [?c] None (freshHost [?c])))))
        = [(''change'',
         FieldPayload (Some \<lparr>fvalue = StringValue ''a@b.com'', isValid = True, isTouched = False,
           isFocused = False, isDirty = True, errors = [], inputType = Some ''text''\<rparr>))]"
    using entry plain total published
      onChange_effect [of "world (freshHost [textControl ''email''])" "textControl ''email''"
        "initialField [] (textControl ''email'')" "rejecting ''other''" None
        "eventOn \<lparr>name = ''email'', value' = ''a@b.com'',
                   element = HTMLInputElement ''text'' False\<rparr>"
        "HTMLInputElement ''text'' False"]
    by (auto simp: freshHost_def)
  have boxes: "fvalue (the (getProp
        (formData (snd (onChange (rejecting ''other'') ?off None (eventOn ?on)
           (world (freshHost [?off]))))) (name ?off))) = BooleanValue True
      \<and> fvalue (the (getProp
        (formData (snd (onChange (rejecting ''other'') ?on None (eventOn ?off)
           (world (freshHost [?on]))))) (name ?on))) = BooleanValue False"
    using entryOff entryOn
      onChange_effect [of "world (freshHost [?off])" ?off "initialField [] ?off"
        "rejecting ''other''" None "eventOn ?on" "HTMLInputElement ''text'' False"]
      onChange_effect [of "world (freshHost [?on])" ?on "initialField [] ?on"
        "rejecting ''other''" None "eventOn ?off" "HTMLInputElement ''text'' False"]
    by (auto simp: checkboxControl_def eventOn_def)
  from entry plain total typed entryOff entryOn ticked cleared boxes show ?thesis
    by blast
qed

section \<open>Subscribing and unsubscribing\<close>

lemma subscribeLoop_explicit:
  "freshIdents h \<Longrightarrow>
     subscribeLoop inputs options fns h =
       (allHandles (nextIdent h) inputs options fns,
        h\<lparr>listeners := listeners h @ allRegistrations (nextIdent h) inputs options,
          nextIdent := nextIdent h + 3 * length inputs\<rparr>)"
proof (induction inputs arbitrary: fns h)
  case Nil
  show ?case by simp
next
  case (Cons input rest)
  let ?n = "nextIdent h"
  let ?opts = "optionsFor options input"
  let ?hs = "handlesFrom ?n input ?opts"
  let ?h6 = "h\<lparr>nextIdent := Suc (Suc (Suc ?n)),
               listeners := listeners h @ registrations input ?opts ?hs\<rparr>"
  have old: "ident cb < ?n" if "(el, ev, cb) \<in> set (listeners h)" for el ev cb
    using Cons.prems that by (auto simp: freshIdents_def)
  have c: "(input, selectedEvent ?opts, change ?hs) \<notin> set (listeners h)"
    using old by (fastforce simp: handlesFrom_def)
  have f: "(input, Events_focus, focus ?hs) \<notin> set (listeners h)"
    using old by (fastforce simp: handlesFrom_def)
  have b: "(input, Events_blur, blur ?hs) \<notin> set (listeners h)"
    using old by (fastforce simp: handlesFrom_def)
  have step: "subscribeLoop (input # rest) options fns h =
      subscribeLoop rest options (fns(name input \<mapsto> ?hs)) ?h6"
    using c f b
    by (simp add: newCallback_def addEventListener_def registrations_def handlesFrom_def Let_def)
  have fresh: "freshIdents ?h6"
    using old by (fastforce simp: freshIdents_def registrations_def handlesFrom_def)
  have rest: "subscribeLoop rest options (fns(name input \<mapsto> ?hs)) ?h6 =
      (allHandles (nextIdent ?h6) rest options (fns(name input \<mapsto> ?hs)),
       ?h6\<lparr>listeners := listeners ?h6 @ allRegistrations (nextIdent ?h6) rest options,
           nextIdent := nextIdent ?h6 + 3 * length rest\<rparr>)"
    by (rule Cons.IH [OF fresh])
  have same: "(allHandles (nextIdent ?h6) rest options (fns(name input \<mapsto> ?hs)),
       ?h6\<lparr>listeners := listeners ?h6 @ allRegistrations (nextIdent ?h6) rest options,
           nextIdent := nextIdent ?h6 + 3 * length rest\<rparr>) =
      (allHandles ?n (input # rest) options fns,
       h\<lparr>listeners := listeners h @ allRegistrations ?n (input # rest) options,
         nextIdent := ?n + 3 * length (input # rest)\<rparr>)"
    by simp
  show ?case
    by (simp only: step rest same)
qed

lemma allHandles_other:
  "key \<notin> name ` set inputs \<Longrightarrow> allHandles n inputs options fns key = fns key"
  by (induction inputs arbitrary: n fns) auto

lemma allHandles_nth:
  "distinct (map name inputs) \<Longrightarrow> k < length inputs \<Longrightarrow>
     allHandles n inputs options fns (name (inputs ! k)) =
       Some (handlesFrom (n + 3 * k) (inputs ! k) (optionsFor options (inputs ! k)))"
proof (induction inputs arbitrary: n fns k)
  case Nil
  then show ?case by simp
next
  case (Cons input rest)
  show ?case
  proof (cases k)
    case 0
    with Cons.prems show ?thesis
      by (simp add: allHandles_other)
  next
    case (Suc j)
    have eq: "Suc (Suc (Suc n)) + 3 * j = n + 3 * k"
      using Suc by simp
    from Suc Cons.prems have "distinct (map name rest)" and "j < length rest"
      by simp_all
    then have "allHandles (Suc (Suc (Suc n))) rest options
        (fns(name input \<mapsto> handlesFrom n input (optionsFor options input))) (name (rest ! j)) =
       Some (handlesFrom (Suc (Suc (Suc n)) + 3 * j) (rest ! j) (optionsFor options (rest ! j)))"
      by (rule Cons.IH)
    then have "allHandles n (input # rest) options fns (name (rest ! j)) =
       Some (handlesFrom (n + 3 * k) (rest ! j) (optionsFor options (rest ! j)))"
      unfolding eq by simp
    with Suc show ?thesis by simp
  qed
qed

lemma remove1_first_new: "x \<notin> set xs \<Longrightarrow> remove1 x (xs @ x # ys) = xs @ ys"
  by (simp add: remove1_append)

text \<open>Unsubscribing, when the handles kept for each control are its own.\<close>

lemma unsubscribe_explicit:
  assumes own: "\<forall>k < length inputs.
        fns (name (inputs ! k)) =
          Some (handlesFrom (n + 3 * k) (inputs ! k) (optionsFor options (inputs ! k)))"
    and old: "\<forall>(el, ev, cb) \<in> set others. ident cb < n"
  shows "unsubscribeFromInputChanges inputs fns options
           (h\<lparr>listeners := others @ allRegistrations n inputs options\<rparr>) =
         (None, h\<lparr>listeners := others\<rparr>)"
  using own old
proof (induction inputs arbitrary: n)
  case Nil
  show ?case by simp
next
  case (Cons input rest)
  let ?opts = "optionsFor options input"
  let ?hs = "handlesFrom n input ?opts"
  let ?t1 = "(input, selectedEvent ?opts, change ?hs)"
  let ?t2 = "(input, Events_focus, focus ?hs)"
  let ?t3 = "(input, Events_blur, blur ?hs)"
  let ?later = "allRegistrations (Suc (Suc (Suc n))) rest options"
  have handles: "fns (name input) = Some ?hs"
    using Cons.prems(1) by fastforce
  have new: "?t1 \<notin> set others" "?t2 \<notin> set others" "?t3 \<notin> set others"
    using Cons.prems(2) by (fastforce simp: handlesFrom_def)+
  have r1: "remove1 ?t1 (others @ ?t1 # ?t2 # ?t3 # ?later) = others @ ?t2 # ?t3 # ?later"
    using new(1) by (rule remove1_first_new)
  have r2: "remove1 ?t2 (others @ ?t2 # ?t3 # ?later) = others @ ?t3 # ?later"
    using new(2) by (rule remove1_first_new)
  have r3: "remove1 ?t3 (others @ ?t3 # ?later) = others @ ?later"
    using new(3) by (rule remove1_first_new)
  have step: "unsubscribeFromInputChanges (input # rest) fns options
           (h\<lparr>listeners := others @ allRegistrations n (input # rest) options\<rparr>) =
         unsubscribeFromInputChanges rest fns options (h\<lparr>listeners := others @ ?later\<rparr>)"
    using handles r1 r2 r3
    by (simp add: removeEventListener_def registrations_def Let_def)
  have own': "\<forall>k < length rest.
        fns (name (rest ! k)) =
          Some (handlesFrom (Suc (Suc (Suc n)) + 3 * k) (rest ! k) (optionsFor options (rest ! k)))"
  proof (intro allI impI)
    fix k assume "k < length rest"
    then have "fns (name ((input # rest) ! Suc k)) =
        Some (handlesFrom (n + 3 * Suc k) ((input # rest) ! Suc k)
          (optionsFor options ((input # rest) ! Suc k)))"
      using Cons.prems(1) by (metis Suc_less_eq length_Cons)
    then have "fns (name (rest ! k)) =
        Some (handlesFrom (n + 3 * Suc k) (rest ! k) (optionsFor options (rest ! k)))"
      by simp
    moreover have "n + 3 * Suc k = Suc (Suc (Suc n)) + 3 * k"
      by simp
    ultimately show "fns (name (rest ! k)) =
          Some (handlesFrom (Suc (Suc (Suc n)) + 3 * k) (rest ! k) (optionsFor options (rest ! k)))"
      by (simp only:)
  qed
  have old': "\<forall>(el, ev, cb) \<in> set others. ident cb < Suc (Suc (Suc n))"
    using Cons.prems(2) by fastforce
  show ?case
    unfolding step by (rule Cons.IH [OF own' old'])
qed

text \<open>
  With distinct names, unsubscribing with the options and the handles of the subscription
  removes every listener that the subscription registered, and nothing else.
\<close>

lemma unsubscribe_distinct_names:
  assumes names: "distinct (map name inputs)" and fresh: "freshIdents h"
  shows "unsubscribeFromInputChanges inputs
           (fst (subscribeToInputChanges inputs options h)) options
           (snd (subscribeToInputChanges inputs options h)) =
         (None, (snd (subscribeToInputChanges inputs options h))\<lparr>listeners := listeners h\<rparr>)"
proof -
  let ?n = "nextIdent h"
  let ?fns = "allHandles ?n inputs options Map.empty"
  let ?h1 = "h\<lparr>listeners := listeners h @ allRegistrations ?n inputs options,
               nextIdent := ?n + 3 * length inputs\<rparr>"
  have subscribed: "subscribeToInputChanges inputs options h = (?fns, ?h1)"
    unfolding subscribeToInputChanges_def using fresh by (rule subscribeLoop_explicit)
  have own: "\<forall>k < length inputs.
        ?fns (name (inputs ! k)) =
          Some (handlesFrom (?n + 3 * k) (inputs ! k) (optionsFor options (inputs ! k)))"
    using allHandles_nth [OF names] by blast
  have old: "\<forall>(el, ev, cb) \<in> set (listeners h). ident cb < ?n"
    using fresh by (simp add: freshIdents_def)
  have removed: "unsubscribeFromInputChanges inputs ?fns options
           (?h1\<lparr>listeners := listeners h @ allRegistrations ?n inputs options\<rparr>) =
         (None, ?h1\<lparr>listeners := listeners h\<rparr>)"
    using own old by (rule unsubscribe_explicit)
  have "?h1\<lparr>listeners := listeners h @ allRegistrations ?n inputs options\<rparr> = ?h1"
    by simp
  with removed have "unsubscribeFromInputChanges inputs ?fns options ?h1 =
         (None, ?h1\<lparr>listeners := listeners h\<rparr>)"
    by (simp only:)
  then show ?thesis
    by (simp only: subscribed fst_conv snd_conv)
qed

lemma dispatch_after_unsubscribe:
  assumes "distinct (map name inputs)"
  shows "fst (subscribeThenUnsubscribe inputs) = None
       \<and> listeners (snd (subscribeThenUnsubscribe inputs)) = []
       \<and> world (dispatchEvent rules control eventName e (snd (subscribeThenUnsubscribe inputs))) =
           world (freshHost inputs)"
proof -
  have fresh: "freshIdents (freshHost inputs)"
    by (simp add: freshIdents_def freshHost_def)
  have "world (snd (subscribeToInputChanges inputs None (freshHost inputs))) = world (freshHost inputs)"
    unfolding subscribeToInputChanges_def
    by (simp add: subscribeLoop_explicit [OF fresh])
  moreover have "listeners (freshHost inputs) = []"
    by (simp add: freshHost_def)
  ultimately show ?thesis
    using unsubscribe_distinct_names [OF assms fresh, of None]
    by (simp add: subscribeThenUnsubscribe_def split_beta dispatchEvent_def listenersFor_def)
qed

lemma createFormData_radioGroup:
  "createFormData radioGroup =
     [(''color'', \<lparr>fvalue = StringValue [], isValid = True, isTouched = False,
         isFocused = False, isDirty = False, errors = [], inputType = Some ''radio''\<rparr>)]"
  by (simp add: radioGroup_def radioControl_def build_defs getProp_def)

lemma subscribeThenUnsubscribe_radioGroup_host:
  "subscribeThenUnsubscribe radioGroup =
     (None,
      \<lparr>listeners =
         [(radioControl ''color'' ''red'', Events_change,
             \<lparr>ident = 0, kind = ChangeHandler, boundInput = radioControl ''color'' ''red'',
               boundOptions = None\<rparr>),
          (radioControl ''color'' ''red'', Events_focus,
             \<lparr>ident = 1, kind = FocusHandler, boundInput = radioControl ''color'' ''red'',
               boundOptions = None\<rparr>),
          (radioControl ''color'' ''red'', Events_blur,
             \<lparr>ident = 2, kind = BlurHandler, boundInput = radioControl ''color'' ''red'',
               boundOptions = None\<rparr>)],
       nextIdent = 6,
       world = \<lparr>formData = createFormData radioGroup, emitted = [], validated = []\<rparr>\<rparr>)"
  by code_simp

lemma subscribeThenUnsubscribe_radioGroup:
  "fst (subscribeThenUnsubscribe radioGroup) = None"
  "listeners (snd (subscribeThenUnsubscribe radioGroup)) =
     [(radioControl ''color'' ''red'', Events_change,
         \<lparr>ident = 0, kind = ChangeHandler, boundInput = radioControl ''color'' ''red'',
           boundOptions = None\<rparr>),
      (radioControl ''color'' ''red'', Events_focus,
         \<lparr>ident = 1, kind = FocusHandler, boundInput = radioControl ''color'' ''red'',
           boundOptions = None\<rparr>),
      (radioControl ''color'' ''red'', Events_blur,
         \<lparr>ident = 2, kind = BlurHandler, boundInput = radioControl ''color'' ''red'',
           boundOptions = None\<rparr>)]"
  "world (snd (subscribeThenUnsubscribe radioGroup)) =
     \<lparr>formData = createFormData radioGroup, emitted = [], validated = []\<rparr>"
  by (simp_all add: subscribeThenUnsubscribe_radioGroup_host)

text \<open>
  C10. Unsubscribing with the same options is meant to remove every listener that the
  subscription registered. It does not when two controls share a name: for two radio
  buttons named \<^verbatim>\<open>color\<close>, the handles kept under that name are those of the second
  control, so the three listeners of the first control stay registered; a focus event
  dispatched on the first control after the unsubscription still sets \<^verbatim>\<open>isFocused\<close>.
\<close>

theorem unsubscribe_shared_name_leaves_listeners:
  "fst (subscribeThenUnsubscribe radioGroup) = None
   \<and> listenersFor (radioControl ''color'' ''red'') Events_focus
        (snd (subscribeThenUnsubscribe radioGroup))
       = [\<lparr>ident = 1, kind = FocusHandler, boundInput = radioControl ''color'' ''red'',
            boundOptions = None\<rparr>]
   \<and> map_option isFocused
        (getProp (formData (world (snd (subscribeThenUnsubscribe radioGroup)))) ''color'')
       = Some False
   \<and> map_option isFocused
        (getProp (formData (world
           (dispatchEvent rules (radioControl ''color'' ''red'') Events_focus
              (eventOn (radioControl ''color'' ''red''))
              (snd (subscribeThenUnsubscribe radioGroup)))))
           ''color'')
       = Some True"
proof -
  have ev: "Events_change \<noteq> Events_focus" "Events_blur \<noteq> Events_focus"
    by (simp_all add: Events_change_def Events_focus_def Events_blur_def)
  have remaining: "listenersFor (radioControl ''color'' ''red'') Events_focus
        (snd (subscribeThenUnsubscribe radioGroup))
       = [\<lparr>ident = 1, kind = FocusHandler, boundInput = radioControl ''color'' ''red'',
            boundOptions = None\<rparr>]"
    using ev by (simp add: subscribeThenUnsubscribe_radioGroup listenersFor_def)
  have before: "formData (world (snd (subscribeThenUnsubscribe radioGroup))) =
      createFormData radioGroup"
    by (simp add: subscribeThenUnsubscribe_radioGroup)
  have after: "world (dispatchEvent rules (radioControl ''color'' ''red'') Events_focus
              (eventOn (radioControl ''color'' ''red''))
              (snd (subscribeThenUnsubscribe radioGroup))) =
      snd (onFocus (radioControl ''color'' ''red'') None (eventOn (radioControl ''color'' ''red''))
             (world (snd (subscribeThenUnsubscribe radioGroup))))"
    by (simp add: dispatchEvent_def remaining call_def)
  have focused: "map_option isFocused
      (getProp (formData (snd (onFocus (radioControl ''color'' ''red'') None
         (eventOn (radioControl ''color'' ''red''))
         (world (snd (subscribeThenUnsubscribe radioGroup)))))) ''color'') = Some True"
    by (simp add: subscribeThenUnsubscribe_radioGroup createFormData_radioGroup
        onFocus_def getProp_def updField_def emitField_def emit_def emitAllowed_def Let_def
        radioControl_def)
  show ?thesis
    using remaining after focused
    by (simp add: before createFormData_radioGroup getProp_def)
       (simp add: subscribeThenUnsubscribe_radioGroup)
qed

end
